theory Spec2Isabelle
  imports Main "HOL-Library.Word"
begin

section \<open>Errors\<close>

text \<open>
  The C++ sources report failure in two ways: by returning a value that says so, and by
  throwing \<open>std::runtime_error\<close>. A thrown exception is the left injection of a sum.
  Reading through an iterator that is outside the token vector, or \<open>front()\<close> of an empty
  child list, is undefined behaviour in C++; the model gives it its own error value so that
  no theorem silently depends on it. An \<open>assert\<close> that fails stops the program and is an
  error value too.
\<close>

datatype error = runtime_error string | assertion_failed string | undefined_behavior

section \<open>libcsl.hpp: load_file_to_char8_vector\<close>

type_synonym char8_t = "8 word"

text \<open>
  What \<open>std::ifstream ifs(name, binary | ate)\<close> finds under a name: either the stream
  cannot be opened, or it is open on a byte sequence. The flag says whether \<open>ifs.read\<close>
  of the whole size succeeds.
\<close>

datatype ifstream = open_fails | opened "char8_t list" bool

text \<open>
  libcsl.hpp lines 34-67. \<open>size\<close> is the distance from the beginning to the end of the
  stream. The \<open>strerror(errno)\<close> suffix of the two messages is text of the environment
  and is left out of the message.
\<close>

definition load_file_to_char8_vector :: "(string \<Rightarrow> ifstream) \<Rightarrow> string \<Rightarrow> error + char8_t list" where
  "load_file_to_char8_vector fs name =
     (case fs name of
        open_fails \<Rightarrow> Inl (runtime_error (name @ '': ''))
      | opened buffer read_ok \<Rightarrow>
          (let size = length buffer in
           if size = 0 then Inr []
           else if \<not> read_ok then Inl (runtime_error (name @ '': ''))
           else
             (let chars = buffer in
              if last chars \<noteq> 0 then Inr (chars @ [0]) else Inr chars)))"

section \<open>Tokens and syntax nodes\<close>

text \<open>
  Modelled from the spec: \<open>Tk\<close> and \<open>Tk::eType\<close> (token.hpp) are not among the sources.
  The spec's data model gives a token as kind, literal, line and column, and lists the
  kinds; the names are those parser.hpp uses (\<open>Tk::eType::x\<close> is written \<open>tk_x\<close>, a trailing
  underscore of the source is dropped).
\<close>

datatype tk_type =
    tk_none | tk_invalid | tk_eof | tk_eos | tk_comma
  | tk_include | tk_macro | tk_type | tk_var | tk_class | tk_func | tk_if | tk_else | tk_elif
  | tk_while | tk_for | tk_on | tk_break | tk_continue | tk_return | tk_print
  | tk_aint | tk_auint | tk_areal | tk_aoctet | tk_abit | tk_atype | tk_avalue | tk_aidentity
  | tk_apointer | tk_aarray | tk_astr
  | tk_number_literal | tk_real_literal | tk_unsigned_literal | tk_octet_literal | tk_bit_literal
  | tk_string_literal | tk_alnumus | tk_none_literal
  | tk_open_scope | tk_close_scope | tk_open_list | tk_close_list | tk_open_frame | tk_close_frame
  | tk_simple_assignment | tk_addition_assignment | tk_subtraction_assignment
  | tk_multiplication_assignment | tk_division_assignment | tk_remainder_assignment
  | tk_logical_OR | tk_logical_AND | tk_equal | tk_not_equal
  | tk_less_than | tk_less_than_or_equal | tk_greater_than | tk_greater_than_or_equal
  | tk_addition | tk_subtraction | tk_multiplication | tk_division | tk_remainder
  | tk_negation | tk_period | tk_ellipsis

record Tk =
  tk_kind :: tk_type
  literal :: string
  line :: nat
  col :: nat

text \<open>
  Modelled from the spec: \<open>Node\<close> and \<open>Node::eType\<close> (ast_node.hpp) are not among the
  sources. The spec's data model: a node has a kind, a source span (token begin, token end)
  and an ordered sequence of children; the kind mirrors the token kinds (\<open>of_tk\<close>) plus the
  compound kinds. A span is a pair of positions in the token vector; \<open>Node(kind)\<close>, built
  without iterators, has none. \<open>push_back\<close> and \<open>push_front\<close> add a child at the end and at
  the front of the children, as parser.hpp uses them.
\<close>

datatype node_type =
    of_tk tk_type
  | invalid | none | pragmatic_block | functional_block | expression | function_call | arguments
  | type_constraints | type_definition | anon_variable_definition
  | anon_variable_definition_assingment | constrained_variable_definition
  | variable_assignment | method_definition | shorthand_void_method_definition
  | shorthand_constrained_void_method_definition | class_definition

datatype Node = Node (kind: node_type) (span: "(nat \<times> nat) option") (children: "Node list")

definition push_back :: "Node \<Rightarrow> Node \<Rightarrow> Node" where
  "push_back n c = Node (kind n) (span n) (children n @ [c])"

definition push_front :: "Node \<Rightarrow> Node \<Rightarrow> Node" where
  "push_front n c = Node (kind n) (span n) (c # children n)"

section \<open>Syntax traits\<close>

text \<open>
  Modelled from the spec: syntax_traits.hpp is not among the sources. The precedence table
  of the spec, lowest to highest: assignment family (right); logical \<open>||\<close> \<open>&&\<close> (left);
  equality (left); relational (left); additive (left); multiplicative (left); unary
  (prefix, right to left); member and call (left, highest). A trait is a function of the
  token kind alone, as \<open>it.importance()\<close>, \<open>it.associativity()\<close> and \<open>it.operation()\<close> are read in
  parser.hpp. The kinds \<open>subtraction\<close> and \<open>addition\<close> carry the traits of the additive
  level; the one kind that is a prefix operator only is \<open>negation\<close>. A kind that is no
  operator has importance 0, no associativity and no operation.
\<close>

datatype Associativity = assoc_none | assoc_left | assoc_right

datatype Operation = op_none | op_binary | op_unary

fun importance_of :: "tk_type \<Rightarrow> int" where
  "importance_of tk_simple_assignment = 1"
| "importance_of tk_addition_assignment = 1"
| "importance_of tk_subtraction_assignment = 1"
| "importance_of tk_multiplication_assignment = 1"
| "importance_of tk_division_assignment = 1"
| "importance_of tk_remainder_assignment = 1"
| "importance_of tk_logical_OR = 2"
| "importance_of tk_logical_AND = 2"
| "importance_of tk_equal = 3"
| "importance_of tk_not_equal = 3"
| "importance_of tk_less_than = 4"
| "importance_of tk_less_than_or_equal = 4"
| "importance_of tk_greater_than = 4"
| "importance_of tk_greater_than_or_equal = 4"
| "importance_of tk_addition = 5"
| "importance_of tk_subtraction = 5"
| "importance_of tk_multiplication = 6"
| "importance_of tk_division = 6"
| "importance_of tk_remainder = 6"
| "importance_of tk_negation = 7"
| "importance_of tk_period = 8"
| "importance_of tk_open_scope = 8"
| "importance_of _ = 0"

fun operation_of :: "tk_type \<Rightarrow> Operation" where
  "operation_of tk_negation = op_unary"
| "operation_of t = (if 1 \<le> importance_of t \<and> importance_of t \<le> 6 \<or> t = tk_period then op_binary else op_none)"

fun associativity_of :: "tk_type \<Rightarrow> Associativity" where
  "associativity_of t =
     (if importance_of t = 1 \<or> importance_of t = 7 then assoc_right
      else if importance_of t = 0 then assoc_none
      else assoc_left)"

section \<open>Token cursor\<close>

text \<open>
  Modelled from the spec: \<open>TokenCursor\<close> (parser_utils.hpp) is not among the sources, and the
  spec says of it only that the parser works on a half-open range of an immutable token
  vector. A cursor is a position \<open>it\<close> in the vector \<open>toks\<close> together with the end of its
  range. The model follows the way parser.hpp uses it: \<open>it.next(n)\<close> is the cursor \<open>n\<close>
  tokens further and never passes the end of the range (parser.hpp compares
  \<open>*it.next(2)\<close> with \<open>end\<close>); reading a cursor that stands at the end of its range gives an
  \<open>eof\<close> token; \<open>to_statement()\<close> is the leaf node of the token's kind that spans the token.
\<close>

definition sentinel_end_token :: Tk where
  "sentinel_end_token = \<lparr>tk_kind = tk_eof, literal = [], line = 0, col = 0\<rparr>"

definition get :: "Tk list \<Rightarrow> nat \<Rightarrow> nat \<Rightarrow> Tk" where
  "get toks end it = (if it < end \<and> it < length toks then toks ! it else sentinel_end_token)"

definition next_n :: "nat \<Rightarrow> nat \<Rightarrow> nat \<Rightarrow> nat" where
  "next_n end it n = (if it + n \<ge> end then end else it + n)"

definition type_at :: "Tk list \<Rightarrow> nat \<Rightarrow> nat \<Rightarrow> tk_type" where
  "type_at toks end it = tk_kind (get toks end it)"

definition importance :: "Tk list \<Rightarrow> nat \<Rightarrow> nat \<Rightarrow> int" where
  "importance toks end it = importance_of (type_at toks end it)"

definition associativity :: "Tk list \<Rightarrow> nat \<Rightarrow> nat \<Rightarrow> Associativity" where
  "associativity toks end it = associativity_of (type_at toks end it)"

definition operation :: "Tk list \<Rightarrow> nat \<Rightarrow> nat \<Rightarrow> Operation" where
  "operation toks end it = operation_of (type_at toks end it)"

definition to_statement :: "Tk list \<Rightarrow> nat \<Rightarrow> nat \<Rightarrow> Node" where
  "to_statement toks end it = Node (of_tk (type_at toks end it)) (Some (it, it + 1)) []"

section \<open>Scope finding\<close>

text \<open>
  Modelled from the spec: \<open>ScopeResult\<close>, \<open>find_scope\<close>, \<open>find_list\<close>, \<open>find_statement\<close>,
  \<open>find_open_statement\<close>, \<open>find_forward\<close> and \<open>scan_tokens_pack\<close> (parser_utils.hpp) are not
  among the sources. A scope result is a validity flag and a half-open range of positions;
  the contained range leaves out the first and the last token of the range.
\<close>

record ScopeResult =
  valid :: bool
  scope_begin :: nat
  scope_end :: nat

definition contained_begin :: "ScopeResult \<Rightarrow> nat" where
  "contained_begin s = scope_begin s + 1"

definition contained_end :: "ScopeResult \<Rightarrow> nat" where
  "contained_end s = scope_end s - 1"

definition is_empty :: "ScopeResult \<Rightarrow> bool" where
  "is_empty s = (contained_begin s = contained_end s)"

text \<open>
  The spec: \<open>find_scope\<close> returns the range of the first balanced pair starting at \<open>begin\<close>,
  with a depth counter over the three pair families \<open>()\<close>, \<open>{}\<close>, \<open>[]\<close>; the nesting of the
  requested kind decides where the scope ends, and the other pairs passed on the way are
  balanced, or the input is rejected. The three counters are (scope, list, frame).
\<close>

type_synonym depths = "nat \<times> nat \<times> nat"

fun step_depths :: "tk_type \<Rightarrow> depths \<Rightarrow> depths option" where
  "step_depths tk_open_scope (p, l, f) = Some (p + 1, l, f)"
| "step_depths tk_open_list (p, l, f) = Some (p, l + 1, f)"
| "step_depths tk_open_frame (p, l, f) = Some (p, l, f + 1)"
| "step_depths tk_close_scope (p, l, f) = (if p = 0 then None else Some (p - 1, l, f))"
| "step_depths tk_close_list (p, l, f) = (if l = 0 then None else Some (p, l - 1, f))"
| "step_depths tk_close_frame (p, l, f) = (if f = 0 then None else Some (p, l, f - 1))"
| "step_depths _ d = Some d"

fun depth_of :: "tk_type \<Rightarrow> depths \<Rightarrow> nat" where
  "depth_of tk_close_scope (p, l, f) = p"
| "depth_of tk_close_list (p, l, f) = l"
| "depth_of tk_close_frame (p, l, f) = f"
| "depth_of _ d = 0"

text \<open>\<open>scan_scope\<close> walks the kinds after the opening token; \<open>pos\<close> is the position of the head.\<close>

fun scan_scope :: "tk_type \<Rightarrow> tk_type list \<Rightarrow> nat \<Rightarrow> depths \<Rightarrow> nat option" where
  "scan_scope cls [] pos d = None"
| "scan_scope cls (t # ts) pos d =
     (case step_depths t d of
        None \<Rightarrow> None
      | Some d' \<Rightarrow>
          if t = cls \<and> depth_of cls d' = 0 then (if d' = (0, 0, 0) then Some (pos + 1) else None)
          else scan_scope cls ts (pos + 1) d')"

definition kinds_between :: "Tk list \<Rightarrow> nat \<Rightarrow> nat \<Rightarrow> tk_type list" where
  "kinds_between toks begin end = map tk_kind (drop begin (take end toks))"

definition find_scope_of :: "tk_type \<Rightarrow> tk_type \<Rightarrow> Tk list \<Rightarrow> nat \<Rightarrow> nat \<Rightarrow> ScopeResult" where
  "find_scope_of opn cls toks begin end =
     (if begin < end \<and> begin < length toks \<and> tk_kind (toks ! begin) = opn then
        (case step_depths opn (0, 0, 0) of
           None \<Rightarrow> \<lparr>valid = False, scope_begin = begin, scope_end = end\<rparr>
         | Some d \<Rightarrow>
             (case scan_scope cls (kinds_between toks (begin + 1) end) (begin + 1) d of
                None \<Rightarrow> \<lparr>valid = False, scope_begin = begin, scope_end = end\<rparr>
              | Some e \<Rightarrow> \<lparr>valid = True, scope_begin = begin, scope_end = e\<rparr>))
      else \<lparr>valid = False, scope_begin = begin, scope_end = end\<rparr>)"

definition find_scope :: "Tk list \<Rightarrow> nat \<Rightarrow> nat \<Rightarrow> ScopeResult" where
  "find_scope = find_scope_of tk_open_scope tk_close_scope"

definition find_list :: "Tk list \<Rightarrow> nat \<Rightarrow> nat \<Rightarrow> ScopeResult" where
  "find_list = find_scope_of tk_open_list tk_close_list"

text \<open>
  The spec: \<open>find_statement\<close> finds a range that starts with the open kind and ends at the
  first terminator at depth zero, skipping balanced bracket interiors;
  \<open>find_open_statement\<close> is the same but permits the open kind to occur again inside. The
  flag \<open>strict\<close> is \<open>find_statement\<close>. The range ends one past the terminator.
\<close>

fun scan_statement :: "bool \<Rightarrow> tk_type \<Rightarrow> tk_type \<Rightarrow> tk_type list \<Rightarrow> nat \<Rightarrow> depths \<Rightarrow> nat option" where
  "scan_statement strict opn trm [] pos d = None"
| "scan_statement strict opn trm (t # ts) pos d =
     (if t = trm \<and> d = (0, 0, 0) then Some (pos + 1)
      else if strict \<and> t = opn \<and> d = (0, 0, 0) \<and> step_depths t d = Some d then None
      else (case step_depths t d of
              None \<Rightarrow> None
            | Some d' \<Rightarrow> scan_statement strict opn trm ts (pos + 1) d'))"

definition find_statement_of :: "bool \<Rightarrow> tk_type \<Rightarrow> tk_type \<Rightarrow> Tk list \<Rightarrow> nat \<Rightarrow> nat \<Rightarrow> ScopeResult" where
  "find_statement_of strict opn trm toks begin end =
     (if begin < end \<and> begin < length toks \<and> tk_kind (toks ! begin) = opn then
        (case scan_statement strict opn trm (kinds_between toks (begin + 1) end) (begin + 1) (0, 0, 0) of
           None \<Rightarrow> \<lparr>valid = False, scope_begin = begin, scope_end = end\<rparr>
         | Some e \<Rightarrow> \<lparr>valid = True, scope_begin = begin, scope_end = e\<rparr>)
      else \<lparr>valid = False, scope_begin = begin, scope_end = end\<rparr>)"

definition find_statement :: "tk_type \<Rightarrow> tk_type \<Rightarrow> Tk list \<Rightarrow> nat \<Rightarrow> nat \<Rightarrow> ScopeResult" where
  "find_statement = find_statement_of True"

definition find_open_statement :: "tk_type \<Rightarrow> tk_type \<Rightarrow> Tk list \<Rightarrow> nat \<Rightarrow> nat \<Rightarrow> ScopeResult" where
  "find_open_statement = find_statement_of False"

text \<open>
  \<open>find_forward(it, kinds)\<close> takes no end: it compares the kinds of the tokens from \<open>it\<close> on
  with the given kinds, and does not match when the vector is too short.
\<close>

definition find_forward :: "Tk list \<Rightarrow> nat \<Rightarrow> tk_type list \<Rightarrow> bool" where
  "find_forward toks it ks = (it + length ks \<le> length toks \<and> kinds_between toks it (it + length ks) = ks)"

text \<open>
  \<open>scan_tokens_pack<masks>(begin, end)\<close>: the kinds from \<open>begin\<close> match the masks in order; a
  mask of policy \<open>optional\<close> may be skipped.
\<close>

datatype mask_policy = mandatory | optional

fun scan_masks :: "(tk_type \<times> mask_policy) list \<Rightarrow> tk_type list \<Rightarrow> bool" where
  "scan_masks [] ts = True"
| "scan_masks ((k, p) # ms) [] = (p = optional \<and> scan_masks ms [])"
| "scan_masks ((k, p) # ms) (t # ts) =
     (if t = k then scan_masks ms ts else (p = optional \<and> scan_masks ms (t # ts)))"

definition scan_tokens_pack :: "(tk_type \<times> mask_policy) list \<Rightarrow> Tk list \<Rightarrow> nat \<Rightarrow> nat \<Rightarrow> bool" where
  "scan_tokens_pack masks toks begin end = scan_masks masks (kinds_between toks begin end)"

section \<open>parser.hpp: build_statement\<close>

text \<open>
  parser.hpp lines 81-332. The function returns \<open>std::optional<Node>\<close> and every return
  statement returns a node, so the result is the node; each \<open>throw std::runtime_error\<close> is
  \<open>Inl\<close>, and \<open>.value()\<close> of a recursive call passes the exception of the call on. The
  three blocks of the continuation pass that contain no recursive call are definitions of
  their own: the validation of the right-hand operand (lines 163-186, after the test for
  the end of the expression), the position of the following operator (lines 193-203), and
  the function-call special case (lines 205-224), which returns the call node (a node of
  kind \<open>none\<close> when there is no call) and the corrected position of the following operator.
\<close>

definition rhs_operand_check :: "Tk list \<Rightarrow> nat \<Rightarrow> nat \<Rightarrow> error option" where
  "rhs_operand_check toks end it =
     (if type_at toks end (next_n end it 1) \<noteq> tk_number_literal
         \<and> type_at toks end (next_n end it 1) \<noteq> tk_alnumus then
        (if operation toks end (next_n end it 1) = op_unary then
           (if next_n end it 2 = end then
              Some (runtime_error ''End of expression after unary operator. Operator must be followed by operand.'')
            else None)
         else if type_at toks end (next_n end it 1) = tk_open_scope then
           (let scope = find_scope toks (next_n end it 1) end in
            if \<not> valid scope then Some (runtime_error ''Mismatched parenthesis.'')
            else if is_empty scope then Some (runtime_error ''Empty parenthesis.'')
            else None)
         else Some (runtime_error ''Invalid right hand side operand. Operator must be followed by operand.''))
      else None)"

definition first_next_operator :: "Tk list \<Rightarrow> nat \<Rightarrow> nat \<Rightarrow> nat" where
  "first_next_operator toks end it =
     (if operation toks end (next_n end it 1) = op_unary then next_n end it 3
      else if type_at toks end (next_n end it 1) = tk_open_scope then
        scope_end (find_scope toks (next_n end it 1) end)
      else next_n end it 2)"

definition function_call_check :: "Tk list \<Rightarrow> nat \<Rightarrow> nat \<Rightarrow> nat \<Rightarrow> error + (Node \<times> nat)" where
  "function_call_check toks end it next_operator_it =
     (if type_at toks end next_operator_it = tk_open_scope then
        (let arg_scope = find_scope toks next_operator_it end in
         if \<not> valid arg_scope then
           Inl (runtime_error ''Mismatched parenthesis in arguments to function call operator.'')
         else
           (let function_call0 = Node function_call (Some (it, scope_end arg_scope)) [];
                function_call1 = push_back function_call0 (to_statement toks end (next_n end it 1));
                function_call2 = push_back function_call1
                                   (Node arguments (Some (contained_begin arg_scope, contained_end arg_scope)) [])
            in Inr (function_call2, scope_end arg_scope)))
      else Inr (Node none None [], next_operator_it))"

text \<open>
  In the branch of lines 280-329 the source reads \<open>last_pass.value().front()\<close>; on a node
  without children this is undefined behaviour, which the model reports before anything
  else of the branch. The call \<open>find_scope(*it, end)\<close> of line 234 is modelled as written: it
  starts at the operator, not at the operand after it as its sibling of line 253 does.
\<close>

function build_statement :: "Tk list \<Rightarrow> nat \<Rightarrow> nat \<Rightarrow> Node option \<Rightarrow> error + Node" where
  "build_statement toks begin end None =
     (if operation toks end begin = op_unary then
        (let unary_operation = to_statement toks end begin in
         if next_n end begin 2 = end then
           Inr (push_back unary_operation (to_statement toks end (next_n end begin 1)))
         else if importance toks end begin < importance toks end (next_n end begin 2) then
           (let next_operation = push_back (to_statement toks end (next_n end begin 2))
                                   (to_statement toks end (next_n end begin 1)) in
            case build_statement toks (next_n end begin 2) end (Some next_operation) of
              Inl e \<Rightarrow> Inl e
            | Inr rest \<Rightarrow> Inr (push_back unary_operation rest))
         else
           (let next_pass = push_back (to_statement toks end (next_n end begin 2))
                              (push_back unary_operation (to_statement toks end (next_n end begin 1))) in
            build_statement toks (next_n end begin 2) end (Some next_pass)))
      else if type_at toks end begin = tk_open_scope then
        (let scope = find_scope toks begin end in
         if \<not> valid scope then Inl (runtime_error ''Mismatched parenthesis.'')
         else if is_empty scope then Inl (runtime_error ''Empty parenthesis.'')
         else if scope_end scope = end then
           build_statement toks (contained_begin scope) (contained_end scope) None
         else
           (case build_statement toks (contained_begin scope) (contained_end scope) None of
              Inl e \<Rightarrow> Inl e
            | Inr inner \<Rightarrow>
                build_statement toks (scope_end scope) end
                  (Some (push_back (to_statement toks end (scope_end scope)) inner))))
      else if next_n end begin 1 = end then Inr (to_statement toks end begin)
      else if type_at toks end (next_n end begin 1) = tk_open_scope then
        (let arg_scope = find_scope toks (next_n end begin 1) end in
         if \<not> valid arg_scope then
           Inl (runtime_error ''Mismatched parenthesis in arguments to function call operator.'')
         else
           (let function_call0 = Node function_call (Some (begin, scope_end arg_scope)) [];
                function_call1 = push_back function_call0 (to_statement toks end begin);
                function_call2 = push_back function_call1
                                   (Node arguments (Some (contained_begin arg_scope, contained_end arg_scope)) [])
            in if scope_end arg_scope = end then Inr function_call2
               else build_statement toks (scope_end arg_scope) end
                      (Some (push_back (to_statement toks end (scope_end arg_scope)) function_call2))))
      else
        build_statement toks (next_n end begin 1) end
          (Some (push_back (to_statement toks end (next_n end begin 1)) (to_statement toks end begin))))"
| "build_statement toks it end (Some last_pass) =
     (if next_n end it 1 = end \<or> type_at toks end (next_n end it 1) = tk_eof then
        Inl (runtime_error ''End of expression after binary operator. Operator must be followed by operand.'')
      else
        (case rhs_operand_check toks end it of
           Some e \<Rightarrow> Inl e
         | None \<Rightarrow>
             (case function_call_check toks end it (first_next_operator toks end it) of
                Inl e \<Rightarrow> Inl e
              | Inr (optional_function_call, next_operator_it) \<Rightarrow>
                  if next_operator_it = end then
                    (if associativity toks end it = assoc_right then
                       (if operation toks end (next_n end it 1) = op_unary then
                          Inr (push_front last_pass
                                 (push_back (to_statement toks end (next_n end it 1))
                                    (to_statement toks end (next_n end it 2))))
                        else if type_at toks end (next_n end it 1) = tk_open_scope then
                          (let scope = find_scope toks it end in
                           case build_statement toks (contained_begin scope) (contained_end scope) None of
                             Inl e \<Rightarrow> Inl e
                           | Inr inner \<Rightarrow> Inr (push_front last_pass inner))
                        else if kind optional_function_call \<noteq> none then
                          Inr (push_front last_pass optional_function_call)
                        else Inr (push_front last_pass (to_statement toks end (next_n end it 1))))
                     else
                       (if operation toks end (next_n end it 1) = op_unary then
                          Inr (push_back last_pass
                                 (push_back (to_statement toks end (next_n end it 1))
                                    (to_statement toks end (next_n end it 2))))
                        else if type_at toks end (next_n end it 1) = tk_open_scope then
                          (let scope = find_scope toks (next_n end it 1) end in
                           case build_statement toks (contained_begin scope) (contained_end scope) None of
                             Inl e \<Rightarrow> Inl e
                           | Inr inner \<Rightarrow> Inr (push_back last_pass inner))
                        else if kind optional_function_call \<noteq> none then
                          Inr (push_back last_pass optional_function_call)
                        else Inr (push_back last_pass (to_statement toks end (next_n end it 1)))))
                  else if importance toks end it < importance toks end next_operator_it then
                    (case build_statement toks (next_n end it 1) end None of
                       Inl e \<Rightarrow> Inl e
                     | Inr rest \<Rightarrow>
                         if associativity toks end it = assoc_right then Inr (push_front last_pass rest)
                         else Inr (push_back last_pass rest))
                  else
                    (case children last_pass of
                       [] \<Rightarrow> Inl undefined_behavior
                     | front # _ \<Rightarrow>
                         (let lhs_expression = Node (kind last_pass) None [] in
                          if type_at toks end (next_n end it 1) = tk_open_scope then
                            (let scope = find_scope toks (next_n end it 1) end in
                             case build_statement toks (contained_begin scope) (contained_end scope) None of
                               Inl e \<Rightarrow> Inl e
                             | Inr inner \<Rightarrow>
                                 build_statement toks next_operator_it end
                                   (Some (push_back (to_statement toks end next_operator_it)
                                      (if associativity toks end it = assoc_right
                                       then push_back (push_back lhs_expression inner) front
                                       else push_back (push_back lhs_expression front) inner))))
                          else
                            (let operand =
                               (if operation toks end (next_n end it 1) = op_unary then
                                  push_back (to_statement toks end (next_n end it 1))
                                    (to_statement toks end (next_n end it 2))
                                else if associativity toks end it \<noteq> assoc_right
                                        \<and> kind optional_function_call \<noteq> none then optional_function_call
                                else to_statement toks end (next_n end it 1))
                             in build_statement toks next_operator_it end
                                  (Some (push_back (to_statement toks end next_operator_it)
                                     (if associativity toks end it = assoc_right
                                      then push_back (push_back lhs_expression operand) front
                                      else push_back (push_back lhs_expression front) operand)))))))))"
  by pat_completeness auto


text \<open>Termination: every recursive call works on a strictly shorter range.\<close>

lemma scan_scope_bounds:
  "scan_scope cls ts pos d = Some e \<Longrightarrow> pos < e \<and> e \<le> pos + length ts"
proof (induction ts arbitrary: pos d)
  case Nil
  then show ?case by simp
next
  case (Cons t ts)
  then show ?case
    by (fastforce split: option.splits if_splits)
qed

lemma length_kinds_between: "length (kinds_between toks b e) \<le> e - b"
  by (simp add: kinds_between_def)

lemma find_scope_of_valid:
  assumes "valid (find_scope_of opn cls toks b e)"
  shows "b + 1 < scope_end (find_scope_of opn cls toks b e) \<and> scope_end (find_scope_of opn cls toks b e) \<le> e
         \<and> scope_begin (find_scope_of opn cls toks b e) = b"
proof -
  from assms obtain d x where b: "b < e"
    and x: "scan_scope cls (kinds_between toks (b + 1) e) (b + 1) d = Some x"
    and r: "find_scope_of opn cls toks b e = \<lparr>valid = True, scope_begin = b, scope_end = x\<rparr>"
    by (auto simp: find_scope_of_def split: if_splits option.splits)
  from scan_scope_bounds [OF x] length_kinds_between [of toks "b + 1" e] b
  have "b + 1 < x \<and> x \<le> e" by arith
  with r show ?thesis by simp
qed

lemma find_scope_of_invalid:
  "\<not> valid (find_scope_of opn cls toks b e) \<Longrightarrow> find_scope_of opn cls toks b e = \<lparr>valid = False, scope_begin = b, scope_end = e\<rparr>"
  by (auto simp: find_scope_of_def split: if_splits option.splits)

lemma find_scope_contained_smaller:
  "b < e \<Longrightarrow> contained_end (find_scope toks b e) - contained_begin (find_scope toks b e) < e - b"
proof (cases "valid (find_scope toks b e)")
  case True
  assume "b < e"
  with find_scope_of_valid [of tk_open_scope tk_close_scope toks b e] True
  show ?thesis unfolding find_scope_def contained_begin_def contained_end_def by linarith
next
  case False
  assume "b < e"
  with find_scope_of_invalid [of tk_open_scope tk_close_scope toks b e] False
  show ?thesis by (simp add: find_scope_def contained_begin_def contained_end_def)
qed

lemma find_scope_end_bounds:
  "b < e \<Longrightarrow> b < scope_end (find_scope toks b e) \<and> scope_end (find_scope toks b e) \<le> e"
proof (cases "valid (find_scope toks b e)")
  case True
  with find_scope_of_valid [of tk_open_scope tk_close_scope toks b e]
  show ?thesis by (simp add: find_scope_def)
next
  case False
  assume "b < e"
  with find_scope_of_invalid [of tk_open_scope tk_close_scope toks b e] False
  show ?thesis by (simp add: find_scope_def)
qed

lemma type_at_in_range: "type_at toks e i \<noteq> tk_eof \<Longrightarrow> i < e"
  by (auto simp: type_at_def get_def sentinel_end_token_def split: if_splits)

lemma next_n_neq_end: "next_n e i n \<noteq> e \<Longrightarrow> next_n e i n = i + n \<and> i + n < e"
  by (auto simp: next_n_def split: if_splits)

lemma next_n_le_end: "i \<le> e \<Longrightarrow> next_n e i n \<le> e \<and> i \<le> next_n e i n"
  by (auto simp: next_n_def)

lemma first_next_operator_bounds:
  assumes "next_n e i 1 \<noteq> e"
  shows "i < first_next_operator toks e i \<and> first_next_operator toks e i \<le> e"
proof -
  from next_n_neq_end [OF assms] have i: "i + 1 < e" and n1: "next_n e i 1 = i + 1" by simp_all
  from find_scope_end_bounds [OF i, of toks] i n1 show ?thesis
    by (auto simp: first_next_operator_def next_n_def)
qed

lemma function_call_check_bounds:
  assumes "function_call_check toks e i n = Inr (c, m)" and "n \<le> e"
  shows "n \<le> m \<and> m \<le> e"
proof (cases "type_at toks e n = tk_open_scope")
  case True
  then have "n < e" using type_at_in_range [of toks e n] by simp
  with True assms find_scope_of_valid [of tk_open_scope tk_close_scope toks n e] show ?thesis
    by (auto simp: function_call_check_def Let_def find_scope_def split: if_splits)
next
  case False
  with assms show ?thesis by (simp add: function_call_check_def)
qed

lemma term_next: "next_n e b n \<noteq> e \<Longrightarrow> 0 < n \<Longrightarrow> e - next_n e b n < e - b"
  by (auto simp: next_n_def split: if_splits)

lemma term_scope_inner_at:
  "type_at toks e b = tk_open_scope \<Longrightarrow>
   contained_end (find_scope toks b e) - contained_begin (find_scope toks b e) < e - b"
  using type_at_in_range [of toks e b] find_scope_contained_smaller [of b e toks] by simp

lemma term_scope_inner_it:
  "next_n e b (Suc 0) \<noteq> e \<Longrightarrow>
   contained_end (find_scope toks b e) - contained_begin (find_scope toks b e) < e - b"
  using next_n_neq_end [of e b "Suc 0"] find_scope_contained_smaller [of b e toks] by simp

lemma term_scope_inner_next:
  assumes "next_n e b (Suc 0) \<noteq> e"
  shows "contained_end (find_scope toks (next_n e b (Suc 0)) e)
           - contained_begin (find_scope toks (next_n e b (Suc 0)) e) < e - b"
proof -
  from next_n_neq_end [OF assms] have n: "next_n e b (Suc 0) = Suc b" and l: "Suc b < e" by simp_all
  from find_scope_contained_smaller [OF l, of toks] n l show ?thesis by simp
qed

lemma term_scope_after:
  assumes "type_at toks e b = tk_open_scope" and "scope_end (find_scope toks b e) \<noteq> e"
  shows "e - scope_end (find_scope toks b e) < e - b"
proof -
  from assms(1) have "b < e" using type_at_in_range [of toks e b] by simp
  from find_scope_end_bounds [OF this, of toks] assms(2) show ?thesis by arith
qed

lemma term_scope_after_next:
  assumes "next_n e b (Suc 0) \<noteq> e" and "scope_end (find_scope toks (next_n e b (Suc 0)) e) \<noteq> e"
  shows "e - scope_end (find_scope toks (next_n e b (Suc 0)) e) < e - b"
proof -
  from next_n_neq_end [OF assms(1)] have n: "next_n e b (Suc 0) = Suc b" and l: "Suc b < e" by simp_all
  from find_scope_end_bounds [OF l, of toks] assms(2) n show ?thesis by simp arith
qed

lemma term_next_operator:
  assumes "next_n e it (Suc 0) \<noteq> e"
    and "function_call_check toks e it (first_next_operator toks e it) = Inr (x, y)"
    and "y \<noteq> e"
  shows "e - y < e - it"
proof -
  from assms(1) have "next_n e it 1 \<noteq> e" by simp
  from first_next_operator_bounds [OF this, of toks]
  have f: "it < first_next_operator toks e it" "first_next_operator toks e it \<le> e" by simp_all
  from function_call_check_bounds [OF assms(2) f(2)] f(1) assms(3) show ?thesis by arith
qed

termination build_statement
proof (relation "measure (\<lambda>(toks, b, e, lp). e - b)", goal_cases)
  case 1 show ?case by simp
next
  case 2 then show ?case by (simp add: term_next)
next
  case 3 then show ?case by (simp add: term_next)
next
  case 4 then show ?case by (simp add: term_scope_inner_at)
next
  case 5 then show ?case by (simp add: term_scope_inner_at)
next
  case 6 then show ?case by (simp add: term_scope_after)
next
  case 7 then show ?case by (simp add: term_scope_after_next)
next
  case 8 then show ?case by (simp add: term_next)
next
  case 9 then show ?case by (simp add: term_scope_inner_it)
next
  case 10 then show ?case by (simp add: term_scope_inner_next)
next
  case 11 then show ?case by (simp add: term_next)
next
  case 12 then show ?case by (simp add: term_scope_inner_next)
next
  case 13 then show ?case by (auto dest: term_next_operator)
next
  case 14 then show ?case by (auto dest: term_next_operator)
qed


text \<open>The equations of \<open>build_statement\<close> are unfolded only where a proof asks for them.\<close>

declare build_statement.simps [simp del]

section \<open>The notation of the expression trees\<close>

text \<open>
  The spec writes a parsed expression as \<open>(+ 1 (* 1 1))\<close>: an operation with its operands in
  order, an operand by its literal. \<open>sexp_of\<close> reads a node this way: a node of a token kind
  without children is a leaf, named by the literal of the token its span starts at; any
  other node is its kind and the trees of its children. \<open>parse_tree\<close> is the tree of
  \<open>build_statement\<close> on a whole token vector.
\<close>

datatype sexp = Leaf string | Op node_type "sexp list"

fun sexp_of :: "Tk list \<Rightarrow> Node \<Rightarrow> sexp" where
  "sexp_of toks (Node k sp cs) =
     (case (k, sp, cs) of
        (of_tk t, Some (b, e), []) \<Rightarrow> Leaf (literal (get toks (length toks) b))
      | _ \<Rightarrow> Op k (map (sexp_of toks) cs))"

definition parse_tree :: "Tk list \<Rightarrow> error + sexp" where
  "parse_tree toks =
     (case build_statement toks 0 (length toks) None of
        Inl e \<Rightarrow> Inl e
      | Inr n \<Rightarrow> Inr (sexp_of toks n))"

text \<open>A token of a kind and a literal, for writing token vectors down.\<close>

definition tk :: "tk_type \<Rightarrow> string \<Rightarrow> Tk" where
  "tk k s = \<lparr>tk_kind = k, literal = s, line = 1, col = 1\<rparr>"

section \<open>parser.hpp: ParsingResult and ParsingProcess\<close>

text \<open>
  parser.hpp lines 27-77. A parsing routine is a functor \<open>p\<close> derived from
  \<open>ParsingProcess\<close>; a call \<open>p()(begin, end)\<close> builds a fresh object, whose error stream
  starts as \<open>[name]\<close> with the implementation's name of the type (\<open>typeid(p).name()\<close>, here
  the parameter \<open>name\<close>), and returns what \<open>perform\<close> returns. The result of a routine is
  \<open>Inr\<close> of the returned \<open>ParsingResult\<close>, or \<open>Inl\<close> when an exception leaves the routine.
\<close>

record ParsingResult =
  res_it :: nat
  res_node :: Node
  res_valid :: bool
  res_error_message :: string

definition digit_char :: "nat \<Rightarrow> char" where
  "digit_char n = ''0123456789'' ! n"

function show_nat :: "nat \<Rightarrow> string" where
  "show_nat n = (if n < 10 then [digit_char n] else show_nat (n div 10) @ [digit_char (n mod 10)])"
  by pat_completeness auto
termination
  by (relation "measure id") auto

declare show_nat.simps [simp del]

definition newline :: string where
  "newline = [CHR 0x0A]"

definition make_result :: "string \<Rightarrow> Node \<Rightarrow> nat \<Rightarrow> bool \<Rightarrow> string \<Rightarrow> ParsingResult" where
  "make_result name node cursor is_valid error_message =
     \<lparr>res_it = cursor, res_node = node, res_valid = is_valid,
      res_error_message = ''['' @ name @ '']'' @ error_message @ newline\<rparr>"

definition make_error :: "string \<Rightarrow> nat \<Rightarrow> Tk \<Rightarrow> string \<Rightarrow> ParsingResult" where
  "make_error name cursor offending_token error_message =
     \<lparr>res_it = cursor, res_node = Node invalid None [], res_valid = False,
      res_error_message = ''['' @ name @ '']'' @ newline @ error_message @ '' Offending token: ''
         @ literal offending_token @ ''| Line: '' @ show_nat (line offending_token)
         @ ''| Col: '' @ show_nat (col offending_token) @ newline\<rparr>"

definition make_success :: "string \<Rightarrow> Node \<Rightarrow> nat \<Rightarrow> ParsingResult" where
  "make_success name node end = make_result name node end True []"

definition make_pass :: "string \<Rightarrow> nat \<Rightarrow> ParsingResult" where
  "make_pass name it = make_result name (Node none None []) it False []"

text \<open>
  Reading a token through a plain iterator (\<open>*begin\<close>, \<open>begin->type()\<close>, \<open>**cursor\<close>): outside
  the vector this is undefined behaviour.
\<close>

definition tok_at :: "Tk list \<Rightarrow> nat \<Rightarrow> Tk option" where
  "tok_at toks i = (if i < length toks then Some (toks ! i) else None)"

definition make_error_at :: "string \<Rightarrow> Tk list \<Rightarrow> nat \<Rightarrow> nat \<Rightarrow> string \<Rightarrow> error + ParsingResult" where
  "make_error_at name toks cursor offending error_message =
     (case tok_at toks offending of
        None \<Rightarrow> Inl undefined_behavior
      | Some t \<Rightarrow> Inr (make_error name cursor t error_message))"

section \<open>parser.hpp: ParseValueExpression\<close>

text \<open>
  parser.hpp lines 939-955. The \<open>catch (std::exception&)\<close> turns every exception of
  \<open>build_statement\<close> into the error result; the message it prints on the way is not part
  of the result.
\<close>

definition ParseValueExpression :: "Tk list \<Rightarrow> nat \<Rightarrow> nat \<Rightarrow> error + ParsingResult" where
  "ParseValueExpression toks begin end =
     (case tok_at toks begin of
        None \<Rightarrow> Inl undefined_behavior
      | Some first \<Rightarrow>
          (let expr_scope = find_open_statement (tk_kind first) tk_eos toks begin end in
           case build_statement toks begin (contained_end expr_scope) None of
             Inl (runtime_error what) \<Rightarrow>
               Inr (make_error ''ParseValueExpression'' begin first ''ParseValueExpression: Invalid statement.'')
           | Inl e \<Rightarrow> Inl e
           | Inr expr_node \<Rightarrow> Inr (make_success ''ParseValueExpression'' expr_node (scope_end expr_scope))))"

section \<open>parser.hpp: ParseDirectiveVar\<close>

text \<open>parser.hpp lines 722-786.\<close>

definition ParseDirectiveVar :: "Tk list \<Rightarrow> nat \<Rightarrow> nat \<Rightarrow> error + ParsingResult" where
  "ParseDirectiveVar toks begin end =
     (if find_forward toks begin [tk_var, tk_alnumus, tk_eos] then
        Inr (make_success ''ParseDirectiveVar''
               (push_back (Node anon_variable_definition (Some (begin, next_n end begin 3)) [])
                  (Node (of_tk tk_alnumus) (Some (next_n end begin 1, next_n end begin 2)) []))
               (next_n end begin 3))
      else if find_forward toks begin [tk_var, tk_alnumus, tk_simple_assignment] then
        (case ParseValueExpression toks (next_n end begin 1) end of
           Inl e \<Rightarrow> Inl e
         | Inr expr \<Rightarrow>
             if \<not> res_valid expr then
               make_error_at ''ParseDirectiveVar'' toks (next_n end begin 1) (next_n end begin 3)
                 (''ParseDirectiveVar: Invalid var statement format. Assingment expression is invalid:''
                    @ res_error_message expr)
             else
               Inr (make_success ''ParseDirectiveVar''
                      (push_back
                         (push_back (Node anon_variable_definition_assingment (Some (begin, res_it expr - 1)) [])
                            (Node (of_tk tk_alnumus) (Some (next_n end begin 1, next_n end begin 2)) []))
                         (res_node expr))
                      (res_it expr)))
      else if find_forward toks begin [tk_var, tk_open_frame] then
        (let frame_scope = find_statement tk_open_frame tk_close_frame toks (next_n end begin 1) end in
         if find_forward toks (scope_end frame_scope) [tk_alnumus] then
           (case tok_at toks (scope_end frame_scope + 1) of
              None \<Rightarrow> Inl undefined_behavior
            | Some after_name \<Rightarrow>
                if tk_kind after_name = tk_eos then
                  Inr (make_success ''ParseDirectiveVar''
                         (push_back
                            (push_back
                               (Node constrained_variable_definition (Some (begin, scope_end frame_scope + 1)) [])
                               (Node type_constraints (Some (contained_begin frame_scope, contained_end frame_scope)) []))
                            (Node (of_tk tk_alnumus) (Some (scope_end frame_scope, scope_end frame_scope + 1)) []))
                         (scope_end frame_scope + 2))
                else if tk_kind after_name = tk_simple_assignment then
                  (case ParseValueExpression toks (scope_end frame_scope + 2) end of
                     Inl e \<Rightarrow> Inl e
                   | Inr expr \<Rightarrow>
                       if \<not> res_valid expr then
                         make_error_at ''ParseDirectiveVar'' toks (next_n end begin 3) (next_n end begin 3)
                           ''ParseDirectiveVar: Invalid var statement format.''
                       else
                         Inr (make_success ''ParseDirectiveVar''
                                (push_back
                                   (push_back
                                      (push_back
                                         (push_back
                                            (Node constrained_variable_definition (Some (begin, res_it expr - 1)) [])
                                            (Node type_constraints
                                               (Some (contained_begin frame_scope, contained_end frame_scope)) []))
                                         (Node (of_tk tk_alnumus)
                                            (Some (scope_end frame_scope, scope_end frame_scope + 1)) []))
                                      (Node (of_tk tk_simple_assignment)
                                         (Some (scope_end frame_scope + 1, scope_end frame_scope + 2)) []))
                                   (res_node expr))
                                (res_it expr)))
                else
                  make_error_at ''ParseDirectiveVar'' toks (scope_end frame_scope) (scope_end frame_scope)
                    ''ParseDirectiveVar: Invalid var statement format.'')
         else
           make_error_at ''ParseDirectiveVar'' toks (scope_end frame_scope) (scope_end frame_scope)
             ''ParseDirectiveVar: Invalid var statement format.'')
      else
        make_error_at ''ParseDirectiveVar'' toks begin (begin + 1)
          ''ParseDirectiveVar: Invalid var statement format. #var directive was not followed by an identity or type constraint.'')"

section \<open>parser.hpp: ParseIdentifierStatement and ParseDirectiveReturn\<close>

text \<open>parser.hpp lines 1089-1122. Every token is read through a plain iterator.\<close>

definition ParseIdentifierStatement :: "Tk list \<Rightarrow> nat \<Rightarrow> nat \<Rightarrow> error + ParsingResult" where
  "ParseIdentifierStatement toks begin end =
     (case tok_at toks begin of
        None \<Rightarrow> Inl undefined_behavior
      | Some t0 \<Rightarrow>
          if tk_kind t0 \<noteq> tk_alnumus then
            Inr (make_error ''ParseIdentifierStatement'' begin t0 ''ParseIdentifierStatement: Expected an alnumus.'')
          else
            (case tok_at toks (begin + 1) of
               None \<Rightarrow> Inl undefined_behavior
             | Some t1 \<Rightarrow>
                 if tk_kind t1 \<noteq> tk_simple_assignment then
                   Inr (make_error ''ParseIdentifierStatement'' (begin + 1) t1
                          ''ParseIdentifierStatement: Expected a simple assignment token.'')
                 else
                   (case tok_at toks (begin + 2) of
                      None \<Rightarrow> Inl undefined_behavior
                    | Some t2 \<Rightarrow>
                        if tk_kind t2 \<noteq> tk_number_literal then
                          Inr (make_error ''ParseIdentifierStatement'' (begin + 2) t2
                                 ''ParseIdentifierStatement: Expected an alnumus.'')
                        else
                          (case tok_at toks (begin + 3) of
                             None \<Rightarrow> Inl undefined_behavior
                           | Some t3 \<Rightarrow>
                               if tk_kind t3 \<noteq> tk_eos then
                                 Inr (make_error ''ParseIdentifierStatement'' (begin + 3) t3
                                        ''ParseIdentifierStatement: Expected an eos.'')
                               else
                                 Inr (make_success ''ParseIdentifierStatement''
                                        (push_back
                                           (push_back
                                              (push_back (Node variable_assignment (Some (begin, begin + 3)) [])
                                                 (Node (of_tk tk_alnumus) (Some (begin, begin + 1)) []))
                                              (Node (of_tk tk_simple_assignment) (Some (begin + 1, begin + 2)) []))
                                           (Node (of_tk tk_number_literal) (Some (begin + 2, begin + 3)) []))
                                        (begin + 4))))))"

text \<open>
  parser.hpp lines 927-938. \<open>build_statement\<close> is called outside any \<open>try\<close>: its exception
  leaves the routine.
\<close>

definition ParseDirectiveReturn :: "Tk list \<Rightarrow> nat \<Rightarrow> nat \<Rightarrow> error + ParsingResult" where
  "ParseDirectiveReturn toks begin end =
     (let statement_scope = find_statement tk_return tk_eos toks begin end in
      if \<not> valid statement_scope then
        make_error_at ''ParseDirectiveReturn'' toks (scope_end statement_scope) (scope_end statement_scope)
          ''ParseDirectiveReturn: Invalid return statement.''
      else
        (case build_statement toks (contained_begin statement_scope) (contained_end statement_scope) None of
           Inl e \<Rightarrow> Inl e
         | Inr expr_node \<Rightarrow>
             Inr (make_success ''ParseDirectiveReturn''
                    (push_back (Node (of_tk tk_return) (Some (begin, contained_end statement_scope)) [])
                       (push_back
                          (Node expression
                             (Some (contained_begin statement_scope, contained_end statement_scope)) [])
                          expr_node))
                    (scope_end statement_scope))))"

section \<open>parser.hpp: ParseFunctionalBlock\<close>

text \<open>
  parser.hpp lines 1027-1086. The two lambdas \<open>parse_statement\<close> and \<open>parse_open_statement\<close>
  find the statement, run the routine on it and throw when the statement scope or the
  routine's result is invalid; the warning for an empty statement is printed only. They
  differ in the finder and in the text of the second exception.
\<close>

definition parse_statement ::
  "(Tk list \<Rightarrow> nat \<Rightarrow> nat \<Rightarrow> error + ParsingResult) \<Rightarrow> tk_type \<Rightarrow> tk_type \<Rightarrow> Tk list \<Rightarrow> nat \<Rightarrow> nat
     \<Rightarrow> error + ParsingResult" where
  "parse_statement parsing_process opn cls toks it end =
     (let statement_scope = find_statement opn cls toks it end in
      if \<not> valid statement_scope then Inl (runtime_error ''ParsePragmaticBlock: Invalid statement scope.'')
      else
        (case parsing_process toks (scope_begin statement_scope) (scope_end statement_scope) of
           Inl e \<Rightarrow> Inl e
         | Inr parse_result \<Rightarrow>
             if \<not> res_valid parse_result then
               Inl (runtime_error (''ParsePragmaticBlock: Invalid statement.'' @ res_error_message parse_result))
             else Inr parse_result))"

definition parse_open_statement ::
  "(Tk list \<Rightarrow> nat \<Rightarrow> nat \<Rightarrow> error + ParsingResult) \<Rightarrow> tk_type \<Rightarrow> tk_type \<Rightarrow> Tk list \<Rightarrow> nat \<Rightarrow> nat
     \<Rightarrow> error + ParsingResult" where
  "parse_open_statement parsing_process opn cls toks it end =
     (let statement_scope = find_open_statement opn cls toks it end in
      if \<not> valid statement_scope then Inl (runtime_error ''ParsePragmaticBlock: Invalid statement scope.'')
      else
        (case parsing_process toks (scope_begin statement_scope) (scope_end statement_scope) of
           Inl e \<Rightarrow> Inl e
         | Inr parse_result \<Rightarrow>
             if \<not> res_valid parse_result then
               Inl (runtime_error ''ParsePragmaticBlock: Invalid statement.'')
             else Inr parse_result))"

text \<open>
  One turn of the \<open>while\<close> loop at a token \<open>t\<close> that is inside the range and not \<open>eof\<close>: \<open>Inl\<close>
  is what ends the routine (an exception, or the returned error of the last \<open>else\<close>), \<open>Inr\<close>
  is the result of the statement's routine, with which the loop goes on.
\<close>

definition functional_block_statement ::
  "Tk list \<Rightarrow> nat \<Rightarrow> nat \<Rightarrow> Tk \<Rightarrow> (error + ParsingResult) + ParsingResult" where
  "functional_block_statement toks it end t =
     (if tk_kind t = tk_alnumus then
        (case parse_open_statement ParseIdentifierStatement tk_alnumus tk_eos toks it end of
           Inl e \<Rightarrow> Inl (Inl e) | Inr r \<Rightarrow> Inr r)
      else if tk_kind t = tk_return then
        (case parse_statement ParseDirectiveReturn tk_return tk_eos toks it end of
           Inl e \<Rightarrow> Inl (Inl e) | Inr r \<Rightarrow> Inr r)
      else if tk_kind t = tk_var then
        (case parse_statement ParseDirectiveVar tk_var tk_eos toks it end of
           Inl e \<Rightarrow> Inl (Inl e) | Inr r \<Rightarrow> Inr r)
      else Inl (Inr (make_error ''ParseFunctionalBlock'' it t ''ParsePragmaticBlock: Invalid statement.'')))"

text \<open>
  The loop itself. Nothing in it says that a statement's routine moves the cursor forward,
  so the loop is a partial function: \<open>None\<close> is a loop that does not end.
\<close>

partial_function (option) functional_block_loop ::
  "Tk list \<Rightarrow> nat \<Rightarrow> nat \<Rightarrow> Node \<Rightarrow> (error + ParsingResult) option" where
  "functional_block_loop toks end it node =
     (if it < end then
        (case tok_at toks it of
           None \<Rightarrow> Some (Inl undefined_behavior)
         | Some t \<Rightarrow>
             if tk_kind t = tk_eof then Some (Inr (make_success ''ParseFunctionalBlock'' node it))
             else
               (case functional_block_statement toks it end t of
                  Inl stop \<Rightarrow> Some stop
                | Inr parse_result \<Rightarrow>
                    functional_block_loop toks end (res_it parse_result)
                      (push_back node (res_node parse_result))))
      else Some (Inr (make_success ''ParseFunctionalBlock'' node it)))"

declare functional_block_loop.simps [code]

definition ParseFunctionalBlock :: "Tk list \<Rightarrow> nat \<Rightarrow> nat \<Rightarrow> (error + ParsingResult) option" where
  "ParseFunctionalBlock toks begin end =
     functional_block_loop toks end begin (Node functional_block (Some (begin, end)) [])"

section \<open>parser.hpp: the type sigils\<close>

text \<open>
  parser.hpp lines 402-471. An \<open>assert\<close> that fails stops the program; it is an error value
  of its own. The masks are those of the two \<open>std::tuple\<close> types.
\<close>

definition constrained_int_type_mask :: "(tk_type \<times> mask_policy) list" where
  "constrained_int_type_mask =
     [(tk_aint, mandatory), (tk_open_frame, mandatory), (tk_subtraction, optional),
      (tk_number_literal, mandatory), (tk_ellipsis, mandatory), (tk_subtraction, optional),
      (tk_number_literal, mandatory), (tk_close_frame, mandatory)]"

definition constrained_uint_type_mask :: "(tk_type \<times> mask_policy) list" where
  "constrained_uint_type_mask =
     [(tk_auint, mandatory), (tk_open_frame, mandatory), (tk_number_literal, mandatory),
      (tk_ellipsis, mandatory), (tk_number_literal, mandatory), (tk_close_frame, mandatory)]"

definition ParseCsoInt :: "Tk list \<Rightarrow> nat \<Rightarrow> nat \<Rightarrow> error + ParsingResult" where
  "ParseCsoInt toks begin end =
     (case tok_at toks begin of
        None \<Rightarrow> Inl undefined_behavior
      | Some t0 \<Rightarrow>
          if tk_kind t0 \<noteq> tk_aint then Inl (assertion_failed ''[LOGIC ERROR][ParseCsoInt] begin is not aint_ token.'')
          else if scan_tokens_pack constrained_int_type_mask toks begin end then
            (let atype_node = Node (of_tk tk_aint) None [] in
             if type_at toks end (next_n end begin 2) = tk_subtraction then
               (let atype_node1 = push_back atype_node
                      (push_back (to_statement toks end (next_n end begin 2))
                         (to_statement toks end (next_n end begin 3))) in
                if type_at toks end (next_n end begin 5) = tk_subtraction then
                  Inr (make_success ''ParseCsoInt''
                         (push_back atype_node1
                            (push_back (to_statement toks end (next_n end begin 5))
                               (to_statement toks end (next_n end begin 6))))
                         (next_n end begin 8))
                else
                  Inr (make_success ''ParseCsoInt''
                         (push_back atype_node1 (to_statement toks end (next_n end begin 5)))
                         (next_n end begin 7)))
             else
               (let atype_node1 = push_back atype_node (to_statement toks end (next_n end begin 2)) in
                if type_at toks end (next_n end begin 4) = tk_subtraction then
                  Inr (make_success ''ParseCsoInt''
                         (push_back atype_node1
                            (push_back (to_statement toks end (next_n end begin 4))
                               (to_statement toks end (next_n end begin 5))))
                         (next_n end begin 7))
                else
                  Inr (make_success ''ParseCsoInt''
                         (push_back atype_node1 (to_statement toks end (next_n end begin 4)))
                         (next_n end begin 6))))
          else Inr (make_success ''ParseCsoInt'' (Node (of_tk tk_aint) (Some (begin, begin + 1)) []) (begin + 1)))"

definition ParseCsoUint :: "Tk list \<Rightarrow> nat \<Rightarrow> nat \<Rightarrow> error + ParsingResult" where
  "ParseCsoUint toks begin end =
     (case tok_at toks begin of
        None \<Rightarrow> Inl undefined_behavior
      | Some t0 \<Rightarrow>
          if tk_kind t0 \<noteq> tk_auint then Inl (assertion_failed ''[LOGIC ERROR][ParseCsoUint] begin is not auint_ token.'')
          else if scan_tokens_pack constrained_uint_type_mask toks begin end then
            Inr (make_success ''ParseCsoUint''
                   (push_back
                      (push_back (Node (of_tk tk_auint) None []) (to_statement toks end (next_n end begin 2)))
                      (to_statement toks end (next_n end begin 4)))
                   (next_n end begin 6))
          else Inr (make_success ''ParseCsoUint'' (Node (of_tk tk_auint) None []) (next_n end begin 1)))"

text \<open>
  parser.hpp lines 484-508. \<open>ParseCandiSpecialObject\<close>, which the routine calls on the type
  inside the frame and which calls the routine back, is the parameter \<open>cso\<close>.
\<close>

definition ParseCsoPointer ::
  "(Tk list \<Rightarrow> nat \<Rightarrow> nat \<Rightarrow> error + ParsingResult) \<Rightarrow> Tk list \<Rightarrow> nat \<Rightarrow> nat \<Rightarrow> error + ParsingResult" where
  "ParseCsoPointer cso toks begin end =
     (case tok_at toks begin of
        None \<Rightarrow> Inl undefined_behavior
      | Some t0 \<Rightarrow>
          if tk_kind t0 \<noteq> tk_apointer then
            Inl (assertion_failed ''[LOGIC ERROR][ParseCsoInt] begin is not apointer_ token.'')
          else if find_forward toks begin [tk_apointer, tk_open_frame, tk_alnumus, tk_close_frame] then
            Inr (make_success ''ParseCsoPointer''
                   (push_back (Node (of_tk tk_apointer) None []) (to_statement toks end (next_n end begin 2)))
                   (next_n end begin 4))
          else if find_forward toks begin [tk_apointer, tk_open_frame] then
            (case cso toks (next_n end begin 2) end of
               Inl e \<Rightarrow> Inl e
             | Inr parse_result \<Rightarrow>
                 if res_valid parse_result then
                   Inr (make_success ''ParseCsoPointer''
                          (push_back (Node (of_tk tk_apointer) None []) (res_node parse_result))
                          (res_it parse_result + 1))
                 else Inl (runtime_error ''ParseCsoPointer: Invalid CSO Type in &pointer type constraint.''))
          else Inl (runtime_error ''ParseCsoPointer: Pointer must be contrained to a type.''))"

section \<open>What a result says\<close>

text \<open>
  \<open>parsed\<close> reads a routine's result: validity, cursor, the kind of the node and the trees of
  its children, in the notation of the spec's examples. \<open>rejected\<close> is the error result of
  the spec: not valid, a node of kind \<open>invalid\<close>, the cursor at \<open>begin\<close>, and a non-empty
  error text. \<open>expression_end\<close> is where \<open>ParseValueExpression\<close> lets the expression end.
\<close>

definition parsed :: "Tk list \<Rightarrow> error + ParsingResult \<Rightarrow> error + (bool \<times> nat \<times> node_type \<times> sexp list)" where
  "parsed toks res =
     (case res of
        Inl e \<Rightarrow> Inl e
      | Inr r \<Rightarrow> Inr (res_valid r, res_it r, kind (res_node r), map (sexp_of toks) (children (res_node r))))"

definition parsed_block ::
  "Tk list \<Rightarrow> (error + ParsingResult) option \<Rightarrow> (error + (bool \<times> nat \<times> node_type \<times> sexp list)) option" where
  "parsed_block toks res = map_option (parsed toks) res"

definition expression_end :: "Tk list \<Rightarrow> nat \<Rightarrow> nat \<Rightarrow> nat" where
  "expression_end toks begin end =
     (case tok_at toks begin of
        None \<Rightarrow> begin
      | Some first \<Rightarrow> contained_end (find_open_statement (tk_kind first) tk_eos toks begin end))"

definition rejected :: "nat \<Rightarrow> error + ParsingResult \<Rightarrow> bool" where
  "rejected begin res =
     (case res of
        Inl e \<Rightarrow> False
      | Inr r \<Rightarrow> \<not> res_valid r \<and> kind (res_node r) = invalid \<and> res_it r = begin \<and> res_error_message r \<noteq> [])"

text \<open>The statement \<open>#var foo = 1 + c * (3 / 4);\<close> followed by the end of the file.\<close>

definition var_foo_statement :: "Tk list" where
  "var_foo_statement =
     [tk tk_var ''#var'', tk tk_alnumus ''foo'', tk tk_simple_assignment ''='', tk tk_number_literal ''1'',
      tk tk_addition ''+'', tk tk_alnumus ''c'', tk tk_multiplication ''*'', tk tk_open_scope ''('',
      tk tk_number_literal ''3'', tk tk_division ''/'', tk tk_number_literal ''4'', tk tk_close_scope '')'',
      tk tk_eos '';'', tk tk_eof []]"

text \<open>
  \<open>assignment_of target init t\<close>: the tree \<open>t\<close> is an assignment node with the two operands
  \<open>target\<close> and \<open>init\<close>, in one order or the other.
\<close>

definition assignment_of :: "sexp \<Rightarrow> sexp \<Rightarrow> sexp \<Rightarrow> bool" where
  "assignment_of target init t =
     (t = Op (of_tk tk_simple_assignment) [target, init] \<or> t = Op (of_tk tk_simple_assignment) [init, target])"

text \<open>
  The statements a functional block takes, by the kinds of their tokens: \<open>name = number;\<close>,
  \<open>return operand;\<close>, \<open>var name;\<close> and \<open>var name = operand;\<close>, an operand being a number
  literal or an identifier.
\<close>

definition statement_form :: "tk_type list \<Rightarrow> bool" where
  "statement_form ks =
     (ks = [tk_alnumus, tk_simple_assignment, tk_number_literal, tk_eos]
      \<or> ks = [tk_return, tk_number_literal, tk_eos] \<or> ks = [tk_return, tk_alnumus, tk_eos]
      \<or> ks = [tk_var, tk_alnumus, tk_eos]
      \<or> ks = [tk_var, tk_alnumus, tk_simple_assignment, tk_number_literal, tk_eos]
      \<or> ks = [tk_var, tk_alnumus, tk_simple_assignment, tk_alnumus, tk_eos])"

text \<open>
  The shape the spec gives to operator nodes: a node whose kind is a binary operator has
  exactly two children, a node whose kind is a unary operator has exactly one, and so for
  every node below it. Which kinds are binary and which are unary is what \<open>operation_of\<close>
  says.
\<close>

definition children_count_ok :: "node_type \<Rightarrow> nat \<Rightarrow> bool" where
  "children_count_ok k n =
     (case k of
        of_tk t \<Rightarrow> (case operation_of t of op_binary \<Rightarrow> n = 2 | op_unary \<Rightarrow> n = 1 | op_none \<Rightarrow> True)
      | _ \<Rightarrow> True)"

fun arity_ok :: "Node \<Rightarrow> bool" where
  "arity_ok (Node k sp cs) = (children_count_ok k (length cs) \<and> list_all arity_ok cs)"

text \<open>
  Where the operators of an expression stand, by the kinds of neighbouring tokens: a unary
  operator is directly followed by a number literal or an identifier, and stands directly
  after an open parenthesis or a binary operator; no binary operator stands directly after
  an open parenthesis. \<open>well_placed\<close> says this of every two neighbours and that the first
  token is not a binary operator, so a unary operator that is not the first token has an
  open parenthesis or a binary operator before it.
\<close>

definition operand_kind :: "tk_type \<Rightarrow> bool" where
  "operand_kind t = (t = tk_number_literal \<or> t = tk_alnumus)"

definition pair_ok :: "tk_type \<Rightarrow> tk_type \<Rightarrow> bool" where
  "pair_ok t1 t2 =
     ((if t1 = tk_negation then operand_kind t2 else True)
      \<and> (if t2 = tk_negation then t1 = tk_open_scope \<or> operation_of t1 = op_binary else True)
      \<and> (if operation_of t2 = op_binary then t1 \<noteq> tk_open_scope else True))"

fun operators_placed :: "tk_type list \<Rightarrow> bool" where
  "operators_placed (t1 # t2 # ts) = (pair_ok t1 t2 \<and> operators_placed (t2 # ts))"
| "operators_placed ts = True"

definition well_placed :: "tk_type list \<Rightarrow> bool" where
  "well_placed ks = ((case ks of [] \<Rightarrow> True | t # ts \<Rightarrow> operation_of t \<noteq> op_binary) \<and> operators_placed ks)"

text \<open>
  The same placement by positions in the token vector, and what every pass of
  \<open>build_statement\<close> can rely on: a fresh start does not stand on a binary operator; a
  continuation pass carries a node that is not a unary operator and has one child, the
  finished left operand.
\<close>

definition placed :: "Tk list \<Rightarrow> nat \<Rightarrow> nat \<Rightarrow> bool" where
  "placed toks b e = (\<forall>i. b \<le> i \<and> Suc i < e \<longrightarrow> pair_ok (tk_kind (toks ! i)) (tk_kind (toks ! Suc i)))"

definition fresh_ok :: "Tk list \<Rightarrow> nat \<Rightarrow> nat \<Rightarrow> bool" where
  "fresh_ok toks b e = (b < e \<longrightarrow> operation_of (tk_kind (toks ! b)) \<noteq> op_binary)"

definition pass_ok :: "Node \<Rightarrow> bool" where
  "pass_ok lp = (children_count_ok (kind lp) 2 \<and> length (children lp) = 1 \<and> list_all arity_ok (children lp))"

definition arity_pre :: "Tk list \<Rightarrow> nat \<Rightarrow> nat \<Rightarrow> Node option \<Rightarrow> bool" where
  "arity_pre toks b e lp =
     (e \<le> length toks \<and> placed toks b e
      \<and> (case lp of None \<Rightarrow> fresh_ok toks b e | Some l \<Rightarrow> pass_ok l))"








text \<open>
  The arithmetic expressions of the spec's precedence rule, as the token sequences they are
  written with. An expression is a sequence of items in which operands and operators
  alternate, beginning and ending with an operand; an operand is a number literal or an
  identifier, or a bracketed expression with its two parentheses; an operator is additive
  (\<open>+\<close> \<open>-\<close>) or multiplicative (\<open>*\<close> \<open>/\<close> \<open>%\<close>).
\<close>

datatype expr_item = Operand Tk | Operator Tk | Bracketed Tk "expr_item list" Tk

primrec tokens_of :: "expr_item \<Rightarrow> Tk list" where
  "tokens_of (Operand x) = [x]"
| "tokens_of (Operator p) = [p]"
| "tokens_of (Bracketed l xs r) = l # concat (map tokens_of xs) @ [r]"

definition expr_tokens :: "expr_item list \<Rightarrow> Tk list" where
  "expr_tokens xs = concat (map tokens_of xs)"

definition additive :: "tk_type \<Rightarrow> bool" where
  "additive k = (k = tk_addition \<or> k = tk_subtraction)"

definition multiplicative :: "tk_type \<Rightarrow> bool" where
  "multiplicative k = (k = tk_multiplication \<or> k = tk_division \<or> k = tk_remainder)"

fun is_operand :: "expr_item \<Rightarrow> bool" where
  "is_operand (Operator p) = False"
| "is_operand u = True"

fun alternates :: "expr_item list \<Rightarrow> bool" where
  "alternates [u] = is_operand u"
| "alternates (u # Operator p # rest) = (is_operand u \<and> alternates rest)"
| "alternates xs = False"

primrec arithmetic_item :: "expr_item \<Rightarrow> bool" where
  "arithmetic_item (Operand x) = operand_kind (tk_kind x)"
| "arithmetic_item (Operator p) = (additive (tk_kind p) \<or> multiplicative (tk_kind p))"
| "arithmetic_item (Bracketed l xs r) =
     (tk_kind l = tk_open_scope \<and> tk_kind r = tk_close_scope
      \<and> alternates xs \<and> list_all (\<lambda>b. b) (map arithmetic_item xs))"

definition arithmetic_expr :: "expr_item list \<Rightarrow> bool" where
  "arithmetic_expr xs = (alternates xs \<and> list_all arithmetic_item xs)"

text \<open>
  \<open>grouped xs t\<close>: the tree \<open>t\<close> groups the expression \<open>xs\<close> so that multiplicative operators
  bind tighter than additive ones and a bracketed expression binds tightest. The tree of an
  operand is its leaf; the tree of a bracketed expression is a tree that groups the
  expression in the brackets, and it is an operand as a whole; the tree of an operator
  node splits the items at that operator into the items of its left and of its right
  operand, and where the operator is multiplicative, no additive operator stands among the
  items of either operand (\<open>has_additive\<close> looks at the operators outside brackets).
  Nothing is said of the order in which operators of the same level are grouped.
\<close>

definition has_additive :: "expr_item list \<Rightarrow> bool" where
  "has_additive xs = list_ex (\<lambda>x. case x of Operator p \<Rightarrow> additive (tk_kind p) | _ \<Rightarrow> False) xs"

inductive grouped :: "expr_item list \<Rightarrow> sexp \<Rightarrow> bool" where
  operand: "grouped [Operand x] (Leaf (literal x))"
| bracketed: "grouped xs t \<Longrightarrow> grouped [Bracketed l xs r] t"
| operation:
    "grouped xs lt \<Longrightarrow> grouped ys rt \<Longrightarrow>
     (multiplicative (tk_kind p) \<longrightarrow> \<not> has_additive xs \<and> \<not> has_additive ys) \<Longrightarrow>
     grouped (xs @ Operator p # ys) (Op (of_tk (tk_kind p)) [lt, rt])"

text \<open>
  A range of the token vector and its tokens; what a fresh start and what a continuation
  pass of \<open>build_statement\<close> yield on the tokens of an expression: a tree that groups it, and
  a tree that groups it together with the items of the finished left operand.
\<close>

definition range_is :: "Tk list \<Rightarrow> nat \<Rightarrow> nat \<Rightarrow> Tk list \<Rightarrow> bool" where
  "range_is toks b e ts = (b \<le> e \<and> e \<le> length toks \<and> drop b (take e toks) = ts)"

definition builds :: "Tk list \<Rightarrow> nat \<Rightarrow> nat \<Rightarrow> expr_item list \<Rightarrow> bool" where
  "builds toks b e xs = (\<exists>n. build_statement toks b e None = Inr n \<and> grouped xs (sexp_of toks n))"

definition continues :: "Tk list \<Rightarrow> nat \<Rightarrow> nat \<Rightarrow> Node \<Rightarrow> Node \<Rightarrow> Tk \<Rightarrow> expr_item list \<Rightarrow> bool" where
  "continues toks it e lp lhs p rest =
     (\<exists>n. build_statement toks it e (Some lp) = Inr n
        \<and> (\<forall>pre. grouped pre (sexp_of toks lhs) \<longrightarrow> (multiplicative (tk_kind p) \<longrightarrow> \<not> has_additive pre)
              \<longrightarrow> grouped (pre @ Operator p # rest) (sexp_of toks n)))"

section \<open>Properties of build_statement\<close>

lemmas cursor_defs = next_n_def operation_def type_at_def get_def importance_def associativity_def
  to_statement_def push_back_def push_front_def rhs_operand_check_def first_next_operator_def
  function_call_check_def sentinel_end_token_def

lemmas scope_defs = find_scope_def find_scope_of_def kinds_between_def contained_begin_def
  contained_end_def is_empty_def

lemmas build_defs = build_statement.simps cursor_defs

lemmas result_defs = make_success_def make_result_def make_error_def make_pass_def newline_def
  tok_at_def make_error_at_def

lemmas statement_defs = find_statement_def find_open_statement_def find_statement_of_def find_forward_def

text \<open>
  C1, as the claim states it, fails: in \<open>1 + 2.5 * 3\<close> the operand of \<open>+\<close> is a real literal,
  and \<open>build_statement\<close> takes only a number literal, an identifier, a unary operator or an
  open parenthesis after an operator (lines 167-185); it throws and there is no tree.
\<close>

theorem real_operand_counterexample:
  "parse_tree [tk tk_number_literal ''1'', tk tk_addition ''+'', tk tk_real_literal ''2.5'',
               tk tk_multiplication ''*'', tk tk_number_literal ''3'']
     = Inl (runtime_error ''Invalid right hand side operand. Operator must be followed by operand.'')"
  by code_simp

text \<open>The tokens of a range, and the kinds that \<open>build_statement\<close> reads there.\<close>

lemma arithmetic_item_Bracketed:
  "arithmetic_item (Bracketed l xs r) =
     (tk_kind l = tk_open_scope \<and> tk_kind r = tk_close_scope \<and> arithmetic_expr xs)"
  by (simp add: arithmetic_expr_def list_all_iff)

lemma arithmetic_expr_single: "arithmetic_expr [u] = (is_operand u \<and> arithmetic_item u)"
  by (simp add: arithmetic_expr_def)

lemma arithmetic_expr_Cons:
  "arithmetic_expr (u # Operator p # rest) =
     (is_operand u \<and> arithmetic_item u \<and> (additive (tk_kind p) \<or> multiplicative (tk_kind p)) \<and> arithmetic_expr rest)"
  by (auto simp: arithmetic_expr_def)

lemma alternates_cases:
  assumes "alternates xs"
  obtains u where "xs = [u]" "is_operand u"
    | u p rest where "xs = u # Operator p # rest" "is_operand u" "alternates rest"
  using assms by (induction xs rule: alternates.induct) auto

lemma is_operand_cases:
  assumes "is_operand u"
  obtains x where "u = Operand x" | l xs r where "u = Bracketed l xs r"
  using assms by (cases u) auto

lemma expr_tokens_simps:
  "expr_tokens [] = []" "expr_tokens (u # xs) = tokens_of u @ expr_tokens xs"
  by (simp_all add: expr_tokens_def)

lemma tokens_of_Bracketed: "tokens_of (Bracketed l xs r) = l # expr_tokens xs @ [r]"
  by (simp add: expr_tokens_def)

declare tokens_of.simps(3) [simp del] arithmetic_item.simps(3) [simp del]

declare tokens_of_Bracketed [simp] arithmetic_item_Bracketed [simp]

lemma arithmetic_kind_facts:
  assumes "additive k \<or> multiplicative k"
  shows "k \<noteq> tk_open_scope" "k \<noteq> tk_close_scope" "k \<noteq> tk_negation" "k \<noteq> tk_eof" "\<not> operand_kind k"
    "operation_of k = op_binary" "associativity_of k = assoc_left"
    "importance_of k = (if multiplicative k then 6 else 5)"
    "step_depths k d = Some d"
  using assms by (cases d; auto simp: additive_def multiplicative_def operand_kind_def)+

lemma operand_kind_facts:
  assumes "operand_kind k"
  shows "k \<noteq> tk_open_scope" "k \<noteq> tk_close_scope" "k \<noteq> tk_negation" "k \<noteq> tk_eof"
    "operation_of k = op_none" "step_depths k d = Some d"
  using assms by (cases d; auto simp: operand_kind_def)+

lemma range_is_Cons:
  assumes "range_is toks b e (x # ts)"
  shows "b < e" "e \<le> length toks" "toks ! b = x" "range_is toks (Suc b) e ts"
proof -
  from assms have be: "b \<le> e" and el: "e \<le> length toks" and d: "drop b (take e toks) = x # ts"
    by (simp_all add: range_is_def)
  from d have "b < length (take e toks)" by (metis drop_all leI list.distinct(1))
  with el show lt: "b < e" by simp
  show "e \<le> length toks" by fact
  from d lt el have "take e toks ! b = x" by (metis Cons_nth_drop_Suc \<open>b < length (take e toks)\<close> list.inject)
  with lt show "toks ! b = x" by simp
  from d have "drop (Suc b) (take e toks) = ts" by (metis drop_Suc tl_drop list.sel(3))
  with lt el show "range_is toks (Suc b) e ts" by (simp add: range_is_def)
qed

lemma range_is_Nil: "range_is toks b e [] \<Longrightarrow> b = e"
  by (auto simp: range_is_def)

lemma range_is_length: "range_is toks b e ts \<Longrightarrow> e = b + length ts"
  by (auto simp: range_is_def)

lemma range_is_append:
  assumes "range_is toks b e (xs @ ys)"
  shows "range_is toks b (b + length xs) xs" "range_is toks (b + length xs) e ys"
proof -
  from assms have be: "b \<le> e" and el: "e \<le> length toks" and d: "drop b (take e toks) = xs @ ys"
    by (simp_all add: range_is_def)
  from range_is_length [OF assms] have e: "e = b + length xs + length ys" by simp
  from d have "take (length xs) (drop b (take e toks)) = xs" by simp
  with e have "drop b (take (b + length xs) toks) = xs" by (simp add: drop_take min_def)
  with e el show "range_is toks b (b + length xs) xs" by (simp add: range_is_def)
  from d have "drop (length xs) (drop b (take e toks)) = ys" by simp
  then have "drop (b + length xs) (take e toks) = ys" by (simp add: add.commute)
  with e el show "range_is toks (b + length xs) e ys" by (simp add: range_is_def)
qed

lemma range_is_kinds: "range_is toks b e ts \<Longrightarrow> kinds_between toks b e = map tk_kind ts"
  by (simp add: range_is_def kinds_between_def)

lemma range_is_type_at:
  assumes "range_is toks b e (x # ts)"
  shows "type_at toks e b = tk_kind x"
  using range_is_Cons [OF assms] by (simp add: type_at_def get_def)

text \<open>\<open>find_scope\<close> on a bracketed expression finds its closing parenthesis.\<close>

lemma scan_scope_items:
  assumes "\<And>x ks pos d. x \<in> set xs \<Longrightarrow>
             scan_scope tk_close_scope (map tk_kind (tokens_of x) @ ks) pos (Suc d, l, f)
               = scan_scope tk_close_scope ks (pos + length (tokens_of x)) (Suc d, l, f)"
  shows "scan_scope tk_close_scope (map tk_kind (expr_tokens xs) @ ks) pos (Suc d, l, f)
           = scan_scope tk_close_scope ks (pos + length (expr_tokens xs)) (Suc d, l, f)"
  using assms
proof (induction xs arbitrary: pos)
  case Nil
  then show ?case by (simp add: expr_tokens_simps)
next
  case (Cons x xs)
  have "scan_scope tk_close_scope (map tk_kind (expr_tokens (x # xs)) @ ks) pos (Suc d, l, f)
          = scan_scope tk_close_scope (map tk_kind (tokens_of x) @ (map tk_kind (expr_tokens xs) @ ks)) pos (Suc d, l, f)"
    by (simp add: expr_tokens_simps)
  also have "\<dots> = scan_scope tk_close_scope (map tk_kind (expr_tokens xs) @ ks) (pos + length (tokens_of x)) (Suc d, l, f)"
    by (rule Cons.prems) simp
  also have "\<dots> = scan_scope tk_close_scope ks (pos + length (tokens_of x) + length (expr_tokens xs)) (Suc d, l, f)"
    by (rule Cons.IH) (simp add: Cons.prems)
  finally show ?case by (simp add: expr_tokens_simps add.assoc)
qed

lemma scan_scope_item:
  "arithmetic_item x \<Longrightarrow>
     scan_scope tk_close_scope (map tk_kind (tokens_of x) @ ks) pos (Suc d, l, f)
       = scan_scope tk_close_scope ks (pos + length (tokens_of x)) (Suc d, l, f)"
proof (induction x arbitrary: ks pos d)
  case (Operand t)
  then show ?case by (simp add: operand_kind_facts)
next
  case (Operator t)
  then show ?case by (simp add: arithmetic_kind_facts)
next
  case (Bracketed lb xs rb)
  from Bracketed.prems have k: "tk_kind lb = tk_open_scope" "tk_kind rb = tk_close_scope"
    and a: "\<And>x. x \<in> set xs \<Longrightarrow> arithmetic_item x"
    by (simp_all add: arithmetic_expr_def list_all_iff)
  have inner: "scan_scope tk_close_scope (map tk_kind (expr_tokens xs) @ ks') pos' (Suc d', l, f)
                 = scan_scope tk_close_scope ks' (pos' + length (expr_tokens xs)) (Suc d', l, f)" for ks' pos' d'
    by (rule scan_scope_items) (simp add: Bracketed.IH a)
  have "scan_scope tk_close_scope (map tk_kind (tokens_of (Bracketed lb xs rb)) @ ks) pos (Suc d, l, f)
          = scan_scope tk_close_scope (map tk_kind (expr_tokens xs) @ (tk_close_scope # ks)) (pos + 1) (Suc (Suc d), l, f)"
    by (simp add: k)
  also have "\<dots> = scan_scope tk_close_scope (tk_close_scope # ks) (pos + 1 + length (expr_tokens xs)) (Suc (Suc d), l, f)"
    by (rule inner)
  also have "\<dots> = scan_scope tk_close_scope ks (pos + length (tokens_of (Bracketed lb xs rb))) (Suc d, l, f)"
    by (simp add: k)
  finally show ?case .
qed

lemma find_scope_bracketed:
  assumes r: "range_is toks b e (l # expr_tokens xs @ r # after)"
    and k: "tk_kind l = tk_open_scope" "tk_kind r = tk_close_scope"
    and a: "list_all arithmetic_item xs"
  shows "find_scope toks b e = \<lparr>valid = True, scope_begin = b, scope_end = b + length (expr_tokens xs) + 2\<rparr>"
proof -
  from range_is_Cons [OF r] have b: "b < e" "e \<le> length toks" "toks ! b = l"
    and r': "range_is toks (Suc b) e (expr_tokens xs @ r # after)" by simp_all
  from range_is_kinds [OF r'] k
  have ks: "kinds_between toks (Suc b) e = map tk_kind (expr_tokens xs) @ (tk_close_scope # map tk_kind after)"
    by simp
  have "scan_scope tk_close_scope (map tk_kind (expr_tokens xs) @ (tk_close_scope # map tk_kind after)) (Suc b) (Suc 0, 0, 0)
          = scan_scope tk_close_scope (tk_close_scope # map tk_kind after) (Suc b + length (expr_tokens xs)) (Suc 0, 0, 0)"
    by (rule scan_scope_items) (use a in \<open>simp add: scan_scope_item list_all_iff\<close>)
  then have "scan_scope tk_close_scope (kinds_between toks (Suc b) e) (Suc b) (Suc 0, 0, 0)
          = Some (b + length (expr_tokens xs) + 2)"
    unfolding ks by simp
  with b k show ?thesis by (simp add: find_scope_def find_scope_of_def)
qed

lemma sexp_of_leaf: "i < length toks \<Longrightarrow> sexp_of toks (to_statement toks e i) = Leaf (literal (toks ! i))"
  by (simp add: to_statement_def get_def)

lemma sexp_of_inner: "cs \<noteq> [] \<Longrightarrow> sexp_of toks (Node k sp cs) = Op k (map (sexp_of toks) cs)"
  by (cases cs) (auto split: node_type.splits option.splits)

lemma sexp_of_push_back:
  "sexp_of toks (push_back n c) = Op (kind n) (map (sexp_of toks) (children n) @ [sexp_of toks c])"
  by (cases n) (simp add: push_back_def sexp_of_inner del: sexp_of.simps)

lemma sexp_of_closed: "sexp_of toks (Node k None cs) = Op k (map (sexp_of toks) cs)"
  by (simp split: node_type.splits)

lemma node_push_back: "kind (push_back n c) = kind n" "children (push_back n c) = children n @ [c]"
  by (simp_all add: push_back_def)

lemma node_to_statement: "kind (to_statement toks e i) = of_tk (type_at toks e i)" "children (to_statement toks e i) = []"
  by (simp_all add: to_statement_def)

lemma has_additive_simps:
  "has_additive [] = False"
  "has_additive (xs @ ys) = (has_additive xs \<or> has_additive ys)"
  "has_additive (Operand x # xs) = has_additive xs"
  "has_additive (Bracketed l zs r # xs) = has_additive xs"
  "has_additive (Operator p # xs) = (additive (tk_kind p) \<or> has_additive xs)"
  by (simp_all add: has_additive_def)

lemma has_additive_operand: "is_operand u \<Longrightarrow> has_additive (u # xs) = has_additive xs"
  by (cases u) (simp_all add: has_additive_simps)

lemma not_both: "additive k \<Longrightarrow> \<not> multiplicative k"
  by (auto simp: additive_def multiplicative_def)

lemma importance_less:
  assumes "additive k \<or> multiplicative k" and "additive k' \<or> multiplicative k'"
  shows "(importance_of k < importance_of k') = (additive k \<and> multiplicative k')"
  using assms by (auto simp: additive_def multiplicative_def)

lemma grouped_operation:
  assumes "grouped pre lt" and "grouped [u] rt" and "is_operand u"
    and "multiplicative (tk_kind p) \<longrightarrow> \<not> has_additive pre"
  shows "grouped (pre @ Operator p # [u]) (Op (of_tk (tk_kind p)) [lt, rt])"
  using grouped.operation [OF assms(1,2), of p] assms(3,4) by (simp add: has_additive_operand has_additive_simps)

lemma alternates_nonempty: "alternates xs \<Longrightarrow> xs \<noteq> []"
  by (cases xs) auto

lemma tokens_of_nonempty: "tokens_of u \<noteq> []"
  by (cases u) simp_all

lemma expr_tokens_nonempty: "arithmetic_expr xs \<Longrightarrow> expr_tokens xs \<noteq> []"
  by (cases xs) (auto simp: arithmetic_expr_def expr_tokens_simps tokens_of_nonempty)

lemma type_at_end_is_eof: "type_at toks e e = tk_eof"
  by (simp add: type_at_def get_def sentinel_end_token_def)

lemma function_call_check_none:
  "type_at toks e q \<noteq> tk_open_scope \<Longrightarrow> function_call_check toks e it q = Inr (Node none None [], q)"
  by (simp add: function_call_check_def)

text \<open>
  A fresh start (lines 85-157) and a continuation pass (lines 158-331) on the tokens of an
  arithmetic expression, each under the assumption for the shorter ranges.
\<close>

lemma bracket_scope:
  assumes r: "range_is toks b e (tokens_of (Bracketed l ys r0) @ after)"
    and a: "arithmetic_item (Bracketed l ys r0)"
  defines "q \<equiv> Suc (Suc (b + length (expr_tokens ys)))"
  shows "find_scope toks b e = \<lparr>valid = True, scope_begin = b, scope_end = q\<rparr>"
    and "type_at toks e b = tk_open_scope"
    and "range_is toks (Suc b) (q - 1) (expr_tokens ys)"
    and "range_is toks q e after"
    and "Suc b < q - 1" and "q \<le> e" and "arithmetic_expr ys"
proof -
  from a have k: "tk_kind l = tk_open_scope" "tk_kind r0 = tk_close_scope" and ay: "arithmetic_expr ys"
    by simp_all
  from r have r1: "range_is toks b e (l # expr_tokens ys @ r0 # after)"
    by simp
  from ay have "list_all arithmetic_item ys" by (simp add: arithmetic_expr_def)
  from find_scope_bracketed [OF r1 k this]
  show "find_scope toks b e = \<lparr>valid = True, scope_begin = b, scope_end = q\<rparr>" by (simp add: q_def)
  from range_is_type_at [OF r1] k show "type_at toks e b = tk_open_scope" by simp
  from range_is_Cons [OF r1] have r2: "range_is toks (Suc b) e (expr_tokens ys @ r0 # after)" by simp
  from range_is_append [OF r2]
  have r3: "range_is toks (Suc b) (Suc b + length (expr_tokens ys)) (expr_tokens ys)"
    and r4: "range_is toks (Suc b + length (expr_tokens ys)) e (r0 # after)" by simp_all
  from r3 show "range_is toks (Suc b) (q - 1) (expr_tokens ys)" by (simp add: q_def)
  from range_is_Cons [OF r4] show "range_is toks q e after" by (simp add: q_def)
  from expr_tokens_nonempty [OF ay] show "Suc b < q - 1" by (simp add: q_def)
  from range_is_length [OF r1] show "q \<le> e" by (simp add: q_def)
  show "arithmetic_expr ys" by fact
qed

lemma fresh_builds:
  assumes IHf: "\<And>b' e' ys. e' - b' < e - b \<Longrightarrow> arithmetic_expr ys \<Longrightarrow> range_is toks b' e' (expr_tokens ys) \<Longrightarrow>
                  builds toks b' e' ys"
    and IHp: "\<And>it' e' lp lhs p rest. e' - it' < e - b \<Longrightarrow> arithmetic_expr rest \<Longrightarrow>
                  additive (tk_kind p) \<or> multiplicative (tk_kind p) \<Longrightarrow>
                  range_is toks it' e' (p # expr_tokens rest) \<Longrightarrow> kind lp = of_tk (tk_kind p) \<Longrightarrow>
                  children lp = [lhs] \<Longrightarrow> continues toks it' e' lp lhs p rest"
    and a: "arithmetic_expr xs" and r: "range_is toks b e (expr_tokens xs)"
  shows "builds toks b e xs"
proof -
  note eq = build_statement.simps(1) [of toks b e]
  from a have "alternates xs" by (simp add: arithmetic_expr_def)
  then show ?thesis
  proof (cases rule: alternates_cases)
    case (1 u)
    from a 1 have au: "arithmetic_item u" by (simp add: arithmetic_expr_single)
    from \<open>is_operand u\<close> show ?thesis
    proof (cases rule: is_operand_cases)
      case (1 x)
      with r \<open>xs = [u]\<close> have rx: "range_is toks b e [x]" by (simp add: expr_tokens_simps)
      from range_is_Cons [OF rx] range_is_length [OF rx] have b: "b < length toks" "toks ! b = x" "e = Suc b"
        by simp_all
      from au 1 have ok: "operand_kind (tk_kind x)" by simp
      from range_is_type_at [OF rx] have t: "type_at toks e b = tk_kind x" .
      with operand_kind_facts [OF ok] have k: "operation toks e b \<noteq> op_unary" "type_at toks e b \<noteq> tk_open_scope"
        by (simp_all add: operation_def)
      from b have "next_n e b 1 = e" by (simp add: next_n_def)
      with k have "build_statement toks b e None = Inr (to_statement toks e b)" unfolding eq by simp
      moreover from b have "sexp_of toks (to_statement toks e b) = Leaf (literal x)" by (simp add: sexp_of_leaf)
      ultimately show ?thesis using 1 \<open>xs = [u]\<close> by (auto simp: builds_def intro: grouped.operand)
    next
      case (2 l ys r0)
      with r \<open>xs = [u]\<close> have rx: "range_is toks b e (tokens_of (Bracketed l ys r0) @ [])"
        by (simp add: expr_tokens_simps)
      from au 2 have ab: "arithmetic_item (Bracketed l ys r0)" by simp
      define q where "q = Suc (Suc (b + length (expr_tokens ys)))"
      note bs = bracket_scope [OF rx ab, folded q_def]
      from range_is_Nil [OF bs(4)] have qe: "q = e" .
      from bs(2) have k: "operation toks e b \<noteq> op_unary" by (simp add: operation_def)
      from bs(5) qe have m: "(q - 1) - Suc b < e - b" by arith
      from IHf [OF m bs(7) bs(3)] obtain n where
        n: "build_statement toks (Suc b) (q - 1) None = Inr n" "grouped ys (sexp_of toks n)"
        by (auto simp: builds_def)
      from k bs(1,2,5) qe n(1) have "build_statement toks b e None = Inr n" unfolding eq
        by (simp add: Let_def is_empty_def contained_begin_def contained_end_def)
      with n(2) 2 \<open>xs = [u]\<close> show ?thesis by (auto simp: builds_def intro: grouped.bracketed)
    qed
  next
    case (2 u p rest)
    from a 2 have au: "arithmetic_item u" and ap: "additive (tk_kind p) \<or> multiplicative (tk_kind p)"
      and ar: "arithmetic_expr rest"
      by (simp_all add: arithmetic_expr_Cons)
    note pk = arithmetic_kind_facts [OF ap]
    from \<open>is_operand u\<close> show ?thesis
    proof (cases rule: is_operand_cases)
      case (1 x)
      with r 2 have rx: "range_is toks b e (x # p # expr_tokens rest)" by (simp add: expr_tokens_simps)
      from range_is_Cons [OF rx] have b: "b < e" "b < length toks" "toks ! b = x"
        and rp: "range_is toks (Suc b) e (p # expr_tokens rest)" by simp_all
      from range_is_Cons [OF rp] have sb: "Suc b < e" by simp
      from au 1 have ok: "operand_kind (tk_kind x)" by simp
      from range_is_type_at [OF rx] have t: "type_at toks e b = tk_kind x" .
      with operand_kind_facts [OF ok] have k: "operation toks e b \<noteq> op_unary" "type_at toks e b \<noteq> tk_open_scope"
        by (simp_all add: operation_def)
      from range_is_type_at [OF rp] pk have tp: "type_at toks e (Suc b) = tk_kind p" "type_at toks e (Suc b) \<noteq> tk_open_scope"
        by simp_all
      from sb have n1: "next_n e b 1 = Suc b" by (simp add: next_n_def)
      let ?lhs = "to_statement toks e b"
      let ?lp = "push_back (to_statement toks e (Suc b)) ?lhs"
      from k tp n1 sb have e1: "build_statement toks b e None = build_statement toks (Suc b) e (Some ?lp)"
        unfolding eq by simp
      from sb have "e - Suc b < e - b" by arith
      from IHp [OF this ar ap rp, of ?lp ?lhs] tp obtain n where
        n: "build_statement toks (Suc b) e (Some ?lp) = Inr n"
        and g: "\<And>pre. grouped pre (sexp_of toks ?lhs) \<Longrightarrow> (multiplicative (tk_kind p) \<longrightarrow> \<not> has_additive pre)
                  \<Longrightarrow> grouped (pre @ Operator p # rest) (sexp_of toks n)"
        by (auto simp: continues_def node_push_back node_to_statement)
      from b have "sexp_of toks ?lhs = Leaf (literal x)" by (simp add: sexp_of_leaf)
      with g [of "[Operand x]"] have "grouped xs (sexp_of toks n)"
        using 1 2 by (simp add: grouped.operand has_additive_simps)
      with e1 n show ?thesis by (auto simp: builds_def)
    next
      case (2 l ys r0)
      with r \<open>xs = u # Operator p # rest\<close>
      have rx: "range_is toks b e (tokens_of (Bracketed l ys r0) @ (p # expr_tokens rest))"
        by (simp add: expr_tokens_simps)
      from au 2 have ab: "arithmetic_item (Bracketed l ys r0)" by simp
      define q where "q = Suc (Suc (b + length (expr_tokens ys)))"
      note bs = bracket_scope [OF rx ab, folded q_def]
      from range_is_Cons [OF bs(4)] have qe: "q < e" by simp
      from bs(2) have k: "operation toks e b \<noteq> op_unary" by (simp add: operation_def)
      from bs(5) qe have m: "(q - 1) - Suc b < e - b" by arith
      from IHf [OF m bs(7) bs(3)] obtain ni where
        ni: "build_statement toks (Suc b) (q - 1) None = Inr ni" "grouped ys (sexp_of toks ni)"
        by (auto simp: builds_def)
      let ?lp = "push_back (to_statement toks e q) ni"
      from k bs(1,2,5) qe ni(1) have e1: "build_statement toks b e None = build_statement toks q e (Some ?lp)"
        unfolding eq by (simp add: Let_def is_empty_def contained_begin_def contained_end_def)
      from range_is_type_at [OF bs(4)] have tp: "type_at toks e q = tk_kind p" .
      from bs(5) qe have "e - q < e - b" by arith
      from IHp [OF this ar ap bs(4), of ?lp ni] tp obtain n where
        n: "build_statement toks q e (Some ?lp) = Inr n"
        and g: "\<And>pre. grouped pre (sexp_of toks ni) \<Longrightarrow> (multiplicative (tk_kind p) \<longrightarrow> \<not> has_additive pre)
                  \<Longrightarrow> grouped (pre @ Operator p # rest) (sexp_of toks n)"
        by (auto simp: continues_def node_push_back node_to_statement)
      from g [of "[Bracketed l ys r0]"] ni(2) have "grouped xs (sexp_of toks n)"
        using 2 \<open>xs = u # Operator p # rest\<close> by (simp add: grouped.bracketed has_additive_simps)
      with e1 n show ?thesis by (auto simp: builds_def)
    qed
  qed
qed

lemma pass_continues:
  assumes IHf: "\<And>b' e' ys. e' - b' < e - it \<Longrightarrow> arithmetic_expr ys \<Longrightarrow> range_is toks b' e' (expr_tokens ys) \<Longrightarrow>
                  builds toks b' e' ys"
    and IHp: "\<And>it' e' lp lhs p rest. e' - it' < e - it \<Longrightarrow> arithmetic_expr rest \<Longrightarrow>
                  additive (tk_kind p) \<or> multiplicative (tk_kind p) \<Longrightarrow>
                  range_is toks it' e' (p # expr_tokens rest) \<Longrightarrow> kind lp = of_tk (tk_kind p) \<Longrightarrow>
                  children lp = [lhs] \<Longrightarrow> continues toks it' e' lp lhs p rest"
    and ar: "arithmetic_expr rest" and ap: "additive (tk_kind p) \<or> multiplicative (tk_kind p)"
    and r: "range_is toks it e (p # expr_tokens rest)"
    and kl: "kind lp = of_tk (tk_kind p)" and cl: "children lp = [lhs]"
  shows "continues toks it e lp lhs p rest"
proof -
  note eq = build_statement.simps(2) [of toks it e lp]
  note pk = arithmetic_kind_facts [OF ap]
  from range_is_Cons [OF r] have it: "it < e" "e \<le> length toks"
    and rr: "range_is toks (Suc it) e (expr_tokens rest)" by simp_all
  from range_is_type_at [OF r] have tp: "type_at toks e it = tk_kind p" .
  with pk have al: "associativity toks e it \<noteq> assoc_right" by (simp add: associativity_def)
  from ar have "alternates rest" by (simp add: arithmetic_expr_def)
  then obtain u after where rest: "rest = u # after" and after: "after = [] \<or> (\<exists>p' rest'. after = Operator p' # rest')"
    and u: "is_operand u"
    by (cases rule: alternates_cases) auto
  from ar rest after have au: "arithmetic_item u" by (auto simp: arithmetic_expr_single arithmetic_expr_Cons)
  define q where "q = Suc it + length (tokens_of u)"
  from rr rest have ru: "range_is toks (Suc it) e (tokens_of u @ expr_tokens after)"
    by (simp add: expr_tokens_simps)
  from range_is_append [OF ru] have rq: "range_is toks q e (expr_tokens after)" by (simp add: q_def)
  from range_is_length [OF ru] have qe: "q \<le> e" by (simp add: q_def)
  from tokens_of_nonempty [of u] have sq: "Suc it < q" by (cases "tokens_of u") (simp_all add: q_def)
  with qe have n1: "next_n e it 1 = Suc it" "Suc it < e" by (simp_all add: next_n_def)
  have tq: "type_at toks e q \<noteq> tk_open_scope"
  proof (cases "after = []")
    case True
    with rq range_is_Nil [of toks q e] show ?thesis by (simp add: expr_tokens_simps type_at_end_is_eof)
  next
    case False
    with after obtain p' rest' where t: "after = Operator p' # rest'" by auto
    with ar rest have "additive (tk_kind p') \<or> multiplicative (tk_kind p')" by (simp add: arithmetic_expr_Cons)
    from arithmetic_kind_facts(1) [OF this] range_is_type_at [of toks q e p' "expr_tokens rest'"] rq t
    show ?thesis by (simp add: expr_tokens_simps)
  qed
  note fc = function_call_check_none [OF tq, of it]
  have "\<exists>opn. grouped [u] (sexp_of toks opn)
          \<and> (q = e \<longrightarrow> build_statement toks it e (Some lp) = Inr (push_back lp opn))
          \<and> (q \<noteq> e \<longrightarrow> importance toks e it < importance toks e q \<longrightarrow>
                build_statement toks it e (Some lp)
                  = (case build_statement toks (Suc it) e None of Inl err \<Rightarrow> Inl err
                     | Inr rn \<Rightarrow> Inr (push_back lp rn)))
          \<and> (q \<noteq> e \<longrightarrow> \<not> importance toks e it < importance toks e q \<longrightarrow>
                build_statement toks it e (Some lp)
                  = build_statement toks q e
                      (Some (push_back (to_statement toks e q)
                               (push_back (push_back (Node (kind lp) None []) lhs) opn))))"
  using u
  proof (cases rule: is_operand_cases)
    case (1 x)
    with ru have rx: "range_is toks (Suc it) e (x # expr_tokens after)" by simp
    from au 1 have ok: "operand_kind (tk_kind x)" by simp
    note xk = operand_kind_facts [OF ok]
    from range_is_type_at [OF rx] have tx: "type_at toks e (Suc it) = tk_kind x" .
    from range_is_Cons [OF rx] have sl: "Suc it < length toks" "toks ! Suc it = x" by simp_all
    from 1 have q2: "q = Suc (Suc it)" by (simp add: q_def)
    with qe have n2: "next_n e it 2 = q" by (auto simp: next_n_def)
    from tx ok n1 have rc: "rhs_operand_check toks e it = None"
      by (auto simp: rhs_operand_check_def operand_kind_def)
    from tx xk n1 n2 have fo: "first_next_operator toks e it = q"
      by (simp add: first_next_operator_def operation_def)
    let ?opn = "to_statement toks e (Suc it)"
    from sl 1 have g: "grouped [u] (sexp_of toks ?opn)" by (simp add: sexp_of_leaf grouped.operand)
    have c0: "\<not> (next_n e it 1 = e \<or> type_at toks e (next_n e it 1) = tk_eof)"
      using n1 tx xk by simp
    have op: "operation toks e (Suc it) \<noteq> op_unary" "type_at toks e (Suc it) \<noteq> tk_open_scope"
      using tx xk by (simp_all add: operation_def)
    have e1: "q = e \<Longrightarrow> build_statement toks it e (Some lp) = Inr (push_back lp ?opn)"
      unfolding eq using c0 rc fo fc al op n1 by simp
    have e2: "q \<noteq> e \<Longrightarrow> importance toks e it < importance toks e q \<Longrightarrow>
                build_statement toks it e (Some lp)
                  = (case build_statement toks (Suc it) e None of Inl err \<Rightarrow> Inl err
                     | Inr rn \<Rightarrow> Inr (push_back lp rn))"
      unfolding eq using c0 rc fo fc al n1 by (simp split: sum.splits)
    have e3: "q \<noteq> e \<Longrightarrow> \<not> importance toks e it < importance toks e q \<Longrightarrow>
                build_statement toks it e (Some lp)
                  = build_statement toks q e
                      (Some (push_back (to_statement toks e q)
                               (push_back (push_back (Node (kind lp) None []) lhs) ?opn)))"
      unfolding eq using c0 rc fo fc al op n1 cl by (simp add: Let_def)
    from g e1 e2 e3 show ?thesis by blast
  next
    case (2 l ys r0)
    with ru have rx: "range_is toks (Suc it) e (tokens_of (Bracketed l ys r0) @ expr_tokens after)" by simp
    from au 2 have ab: "arithmetic_item (Bracketed l ys r0)" by simp
    from 2 have q2: "q = Suc (Suc (Suc it + length (expr_tokens ys)))" by (simp add: q_def)
    note bs = bracket_scope [OF rx ab, folded q2]
    let ?s = "find_scope toks (Suc it) e"
    from bs(1) have sc: "valid ?s" "scope_end ?s = q" "contained_begin ?s = Suc (Suc it)" "contained_end ?s = q - 1"
      by (simp_all add: contained_begin_def contained_end_def)
    from bs(5) sc have nem: "\<not> is_empty ?s" by (simp add: is_empty_def)
    from bs(5) qe it have m: "(q - 1) - Suc (Suc it) < e - it" by arith
    from IHf [OF m bs(7) bs(3)] obtain ni where
      ni: "build_statement toks (Suc (Suc it)) (q - 1) None = Inr ni" "grouped ys (sexp_of toks ni)"
      by (auto simp: builds_def)
    from ni(2) 2 have g: "grouped [u] (sexp_of toks ni)" by (simp add: grouped.bracketed)
    have op: "operation toks e (Suc it) \<noteq> op_unary" "type_at toks e (Suc it) = tk_open_scope"
      using bs(2) by (simp_all add: operation_def)
    have c0: "\<not> (next_n e it 1 = e \<or> type_at toks e (next_n e it 1) = tk_eof)"
      using n1 op by simp
    from op n1 sc nem have rc: "rhs_operand_check toks e it = None"
      by (simp add: rhs_operand_check_def Let_def)
    from op n1 sc have fo: "first_next_operator toks e it = q"
      by (simp add: first_next_operator_def)
    have e1: "q = e \<Longrightarrow> build_statement toks it e (Some lp) = Inr (push_back lp ni)"
      unfolding eq using c0 rc fo fc al op n1 sc ni(1) by (simp add: Let_def)
    have e2: "q \<noteq> e \<Longrightarrow> importance toks e it < importance toks e q \<Longrightarrow>
                build_statement toks it e (Some lp)
                  = (case build_statement toks (Suc it) e None of Inl err \<Rightarrow> Inl err
                     | Inr rn \<Rightarrow> Inr (push_back lp rn))"
      unfolding eq using c0 rc fo fc al n1 by (simp split: sum.splits)
    have e3: "q \<noteq> e \<Longrightarrow> \<not> importance toks e it < importance toks e q \<Longrightarrow>
                build_statement toks it e (Some lp)
                  = build_statement toks q e
                      (Some (push_back (to_statement toks e q)
                               (push_back (push_back (Node (kind lp) None []) lhs) ni)))"
      unfolding eq using c0 rc fo fc al op n1 cl sc ni(1) by (simp add: Let_def)
    from g e1 e2 e3 show ?thesis by blast
  qed
  then obtain opn where g: "grouped [u] (sexp_of toks opn)"
    and e1: "q = e \<Longrightarrow> build_statement toks it e (Some lp) = Inr (push_back lp opn)"
    and e2: "q \<noteq> e \<Longrightarrow> importance toks e it < importance toks e q \<Longrightarrow>
                build_statement toks it e (Some lp)
                  = (case build_statement toks (Suc it) e None of Inl err \<Rightarrow> Inl err
                     | Inr rn \<Rightarrow> Inr (push_back lp rn))"
    and e3: "q \<noteq> e \<Longrightarrow> \<not> importance toks e it < importance toks e q \<Longrightarrow>
                build_statement toks it e (Some lp)
                  = build_statement toks q e
                      (Some (push_back (to_statement toks e q)
                               (push_back (push_back (Node (kind lp) None []) lhs) opn)))"
    by blast
  have sx: "sexp_of toks (push_back lp c) = Op (of_tk (tk_kind p)) [sexp_of toks lhs, sexp_of toks c]" for c
    by (simp add: sexp_of_push_back kl cl del: sexp_of.simps)
  from after show ?thesis
  proof
    assume "after = []"
    with rq range_is_Nil [of toks q e] have "q = e" by (simp add: expr_tokens_simps)
    from e1 [OF this] grouped_operation [OF _ g u] rest \<open>after = []\<close> show ?thesis
      by (auto simp: continues_def sx simp del: sexp_of.simps)
  next
    assume "\<exists>p' rest'. after = Operator p' # rest'"
    then obtain p' rest' where t: "after = Operator p' # rest'" by auto
    from ar rest t have ap': "additive (tk_kind p') \<or> multiplicative (tk_kind p')" and ar': "arithmetic_expr rest'"
      by (simp_all add: arithmetic_expr_Cons)
    from rq t have rq': "range_is toks q e (p' # expr_tokens rest')" by (simp add: expr_tokens_simps)
    from range_is_Cons [OF rq'] have ql: "q < e" by simp
    from range_is_type_at [OF rq'] have tq': "type_at toks e q = tk_kind p'" .
    have imp: "(importance toks e it < importance toks e q) = (additive (tk_kind p) \<and> multiplicative (tk_kind p'))"
      by (simp add: importance_def tp tq' importance_less [OF ap ap'])
    show ?thesis
    proof (cases "importance toks e it < importance toks e q")
      case True
      with imp have ad: "additive (tk_kind p)" by simp
      from it have "e - Suc it < e - it" by arith
      from IHf [OF this ar rr] obtain rn where
        rn: "build_statement toks (Suc it) e None = Inr rn" "grouped rest (sexp_of toks rn)"
        by (auto simp: builds_def)
      from e2 [OF _ True] ql rn(1) have b: "build_statement toks it e (Some lp) = Inr (push_back lp rn)" by simp
      have "grouped (pre @ Operator p # rest) (Op (of_tk (tk_kind p)) [sexp_of toks lhs, sexp_of toks rn])"
        if "grouped pre (sexp_of toks lhs)" for pre
        using grouped.operation [OF that rn(2), of p] not_both [OF ad] by simp
      with b show ?thesis by (auto simp: continues_def sx simp del: sexp_of.simps)
    next
      case False
      let ?lhs' = "push_back (push_back (Node (kind lp) None []) lhs) opn"
      let ?lp' = "push_back (to_statement toks e q) ?lhs'"
      from e3 [OF _ False] ql have b: "build_statement toks it e (Some lp) = build_statement toks q e (Some ?lp')"
        by simp
      from sq ql have "e - q < e - it" by arith
      from IHp [OF this ar' ap' rq', of ?lp' ?lhs'] tq' obtain n where
        n: "build_statement toks q e (Some ?lp') = Inr n"
        and c: "\<And>pre'. grouped pre' (sexp_of toks ?lhs') \<Longrightarrow>
                  (multiplicative (tk_kind p') \<longrightarrow> \<not> has_additive pre') \<Longrightarrow>
                  grouped (pre' @ Operator p' # rest') (sexp_of toks n)"
        by (auto simp: continues_def node_push_back node_to_statement)
      have sl: "sexp_of toks ?lhs' = Op (of_tk (tk_kind p)) [sexp_of toks lhs, sexp_of toks opn]"
        by (simp add: sexp_of_push_back node_push_back kl del: sexp_of.simps)
      have "grouped (pre @ Operator p # rest) (sexp_of toks n)"
        if pg: "grouped pre (sexp_of toks lhs)" and pt: "multiplicative (tk_kind p) \<longrightarrow> \<not> has_additive pre" for pre
      proof -
        from grouped_operation [OF pg g u pt] sl
        have g1: "grouped (pre @ Operator p # [u]) (sexp_of toks ?lhs')" by simp
        have "multiplicative (tk_kind p') \<longrightarrow> \<not> has_additive (pre @ Operator p # [u])"
        proof
          assume mp': "multiplicative (tk_kind p')"
          with False imp have na: "\<not> additive (tk_kind p)" by simp
          with ap have "multiplicative (tk_kind p)" by simp
          with pt na u show "\<not> has_additive (pre @ Operator p # [u])"
            by (simp add: has_additive_simps has_additive_operand)
        qed
        from c [OF g1 this] rest t show ?thesis by simp
      qed
      with b n show ?thesis by (auto simp: continues_def)
    qed
  qed
qed

lemma builds_and_continues:
  "(arithmetic_expr xs \<longrightarrow> range_is toks b e (expr_tokens xs) \<longrightarrow> builds toks b e xs)
   \<and> (arithmetic_expr rest \<longrightarrow> (additive (tk_kind p) \<or> multiplicative (tk_kind p)) \<longrightarrow>
        range_is toks b e (p # expr_tokens rest) \<longrightarrow> kind lp = of_tk (tk_kind p) \<longrightarrow> children lp = [lhs] \<longrightarrow>
        continues toks b e lp lhs p rest)"
proof (induction "e - b" arbitrary: b e xs rest p lp lhs rule: less_induct)
  case less
  have IHf: "builds toks b' e' ys"
    if "e' - b' < e - b" "arithmetic_expr ys" "range_is toks b' e' (expr_tokens ys)" for b' e' ys
    using less.hyps [OF that(1)] that(2,3) by blast
  have IHp: "continues toks it' e' lp' lhs' p' rest'"
    if "e' - it' < e - b" "arithmetic_expr rest'" "additive (tk_kind p') \<or> multiplicative (tk_kind p')"
      "range_is toks it' e' (p' # expr_tokens rest')" "kind lp' = of_tk (tk_kind p')" "children lp' = [lhs']"
    for it' e' lp' lhs' p' rest'
    using less.hyps [OF that(1)] that(2-) by blast
  from fresh_builds [OF IHf IHp] pass_continues [OF IHf IHp] show ?case by blast
qed

text \<open>
  The relation \<open>grouped\<close> tells the trees apart: no tree with a multiplication at its root
  groups \<open>a + b * c\<close>.
\<close>

lemma grouped_excludes_loose_tree:
  assumes "tk_kind p = tk_addition" and "tk_kind q = tk_multiplication"
  shows "\<not> grouped [Operand a, Operator p, Operand b, Operator q, Operand c]
           (Op (of_tk tk_multiplication) [lt, rt])"
proof
  assume "grouped [Operand a, Operator p, Operand b, Operator q, Operand c] (Op (of_tk tk_multiplication) [lt, rt])"
  then show False using assms
    by (cases rule: grouped.cases)
       (auto simp: append_eq_Cons_conv Cons_eq_append_conv multiplicative_def additive_def has_additive_simps)
qed

text \<open>
  C1, amended. For every arithmetic expression built from number literals and identifiers,
  the operators \<open>+\<close> \<open>-\<close> \<open>*\<close> \<open>/\<close> \<open>%\<close> and parentheses, \<open>build_statement\<close> returns a tree, and
  the tree groups the expression with the multiplicative operators binding tighter than
  the additive ones and the bracketed expressions binding tightest: the operands of a
  multiplicative node hold no additive operator outside brackets, and a bracketed
  expression is an operand as a whole. The token sequence \<open>1 + 1 * 1\<close> parses to
  \<open>(+ 1 (* 1 1))\<close>, and \<open>(1 + 1) * 1\<close> parses to \<open>(* (+ 1 1) 1)\<close>. The witness is these two
  expressions.
\<close>

theorem multiplicative_binds_tighter:
  assumes "arithmetic_expr xs"
  shows "(\<exists>t. parse_tree (expr_tokens xs) = Inr t \<and> grouped xs t)
       \<and> parse_tree [tk tk_number_literal ''1'', tk tk_addition ''+'', tk tk_number_literal ''1'',
                     tk tk_multiplication ''*'', tk tk_number_literal ''1'']
           = Inr (Op (of_tk tk_addition) [Leaf ''1'', Op (of_tk tk_multiplication) [Leaf ''1'', Leaf ''1'']])
       \<and> parse_tree [tk tk_open_scope ''('', tk tk_number_literal ''1'', tk tk_addition ''+'',
                     tk tk_number_literal ''1'', tk tk_close_scope '')'', tk tk_multiplication ''*'',
                     tk tk_number_literal ''1'']
           = Inr (Op (of_tk tk_multiplication) [Op (of_tk tk_addition) [Leaf ''1'', Leaf ''1''], Leaf ''1''])"
proof (intro conjI)
  have "range_is (expr_tokens xs) 0 (length (expr_tokens xs)) (expr_tokens xs)"
    by (simp add: range_is_def)
  with builds_and_continues [of xs "expr_tokens xs" 0 "length (expr_tokens xs)"] assms
  have "builds (expr_tokens xs) 0 (length (expr_tokens xs)) xs" by blast
  then obtain n where "build_statement (expr_tokens xs) 0 (length (expr_tokens xs)) None = Inr n"
    and "grouped xs (sexp_of (expr_tokens xs) n)"
    by (auto simp: builds_def)
  then show "\<exists>t. parse_tree (expr_tokens xs) = Inr t \<and> grouped xs t" by (simp add: parse_tree_def)
  show "parse_tree [tk tk_number_literal ''1'', tk tk_addition ''+'', tk tk_number_literal ''1'',
                    tk tk_multiplication ''*'', tk tk_number_literal ''1'']
          = Inr (Op (of_tk tk_addition) [Leaf ''1'', Op (of_tk tk_multiplication) [Leaf ''1'', Leaf ''1'']])"
    by code_simp
  show "parse_tree [tk tk_open_scope ''('', tk tk_number_literal ''1'', tk tk_addition ''+'',
                    tk tk_number_literal ''1'', tk tk_close_scope '')'', tk tk_multiplication ''*'',
                    tk tk_number_literal ''1'']
          = Inr (Op (of_tk tk_multiplication) [Op (of_tk tk_addition) [Leaf ''1'', Leaf ''1''], Leaf ''1''])"
    by code_simp
qed

theorem multiplicative_binds_tighter_witness:
  "arithmetic_expr [Operand (tk tk_number_literal ''1''), Operator (tk tk_addition ''+''),
                    Operand (tk tk_number_literal ''1''), Operator (tk tk_multiplication ''*''),
                    Operand (tk tk_number_literal ''1'')]
   \<and> parse_tree [tk tk_number_literal ''1'', tk tk_addition ''+'', tk tk_number_literal ''1'',
                 tk tk_multiplication ''*'', tk tk_number_literal ''1'']
       = Inr (Op (of_tk tk_addition) [Leaf ''1'', Op (of_tk tk_multiplication) [Leaf ''1'', Leaf ''1'']])
   \<and> grouped [Operand (tk tk_number_literal ''1''), Operator (tk tk_addition ''+''),
               Operand (tk tk_number_literal ''1''), Operator (tk tk_multiplication ''*''),
               Operand (tk tk_number_literal ''1'')]
        (Op (of_tk tk_addition) [Leaf ''1'', Op (of_tk tk_multiplication) [Leaf ''1'', Leaf ''1'']])
   \<and> arithmetic_expr [Bracketed (tk tk_open_scope ''('')
                        [Operand (tk tk_number_literal ''1''), Operator (tk tk_addition ''+''),
                         Operand (tk tk_number_literal ''1'')]
                        (tk tk_close_scope '')''),
                      Operator (tk tk_multiplication ''*''), Operand (tk tk_number_literal ''1'')]
   \<and> parse_tree [tk tk_open_scope ''('', tk tk_number_literal ''1'', tk tk_addition ''+'',
                 tk tk_number_literal ''1'', tk tk_close_scope '')'', tk tk_multiplication ''*'',
                 tk tk_number_literal ''1'']
       = Inr (Op (of_tk tk_multiplication) [Op (of_tk tk_addition) [Leaf ''1'', Leaf ''1''], Leaf ''1''])
   \<and> grouped [Bracketed (tk tk_open_scope ''('')
                 [Operand (tk tk_number_literal ''1''), Operator (tk tk_addition ''+''),
                  Operand (tk tk_number_literal ''1'')]
                 (tk tk_close_scope '')''),
               Operator (tk tk_multiplication ''*''), Operand (tk tk_number_literal ''1'')]
        (Op (of_tk tk_multiplication) [Op (of_tk tk_addition) [Leaf ''1'', Leaf ''1''], Leaf ''1''])"
proof -
  let ?x = "[Operand (tk tk_number_literal ''1''), Operator (tk tk_addition ''+''),
             Operand (tk tk_number_literal ''1''), Operator (tk tk_multiplication ''*''),
             Operand (tk tk_number_literal ''1'')]"
  let ?y = "[Bracketed (tk tk_open_scope ''('')
               [Operand (tk tk_number_literal ''1''), Operator (tk tk_addition ''+''),
                Operand (tk tk_number_literal ''1'')]
               (tk tk_close_scope '')''),
             Operator (tk tk_multiplication ''*''), Operand (tk tk_number_literal ''1'')]"
  have ax: "arithmetic_expr ?x" by code_simp
  have ay: "arithmetic_expr ?y" by code_simp
  have tx: "expr_tokens ?x = [tk tk_number_literal ''1'', tk tk_addition ''+'', tk tk_number_literal ''1'',
                 tk tk_multiplication ''*'', tk tk_number_literal ''1'']"
    by (simp add: expr_tokens_def)
  have ty: "expr_tokens ?y = [tk tk_open_scope ''('', tk tk_number_literal ''1'', tk tk_addition ''+'',
                 tk tk_number_literal ''1'', tk tk_close_scope '')'', tk tk_multiplication ''*'',
                 tk tk_number_literal ''1'']"
    by (simp add: expr_tokens_def)
  have px: "parse_tree (expr_tokens ?x)
       = Inr (Op (of_tk tk_addition) [Leaf ''1'', Op (of_tk tk_multiplication) [Leaf ''1'', Leaf ''1'']])"
    unfolding tx by code_simp
  have py: "parse_tree (expr_tokens ?y)
       = Inr (Op (of_tk tk_multiplication) [Op (of_tk tk_addition) [Leaf ''1'', Leaf ''1''], Leaf ''1''])"
    unfolding ty by code_simp
  from multiplicative_binds_tighter [OF ax] px
  have gx: "grouped ?x (Op (of_tk tk_addition) [Leaf ''1'', Op (of_tk tk_multiplication) [Leaf ''1'', Leaf ''1'']])"
    by auto
  from multiplicative_binds_tighter [OF ay] py
  have gy: "grouped ?y (Op (of_tk tk_multiplication) [Op (of_tk tk_addition) [Leaf ''1'', Leaf ''1''], Leaf ''1''])"
    by auto
  from ax ay px py gx gy show ?thesis unfolding tx ty by blast
qed

text \<open>
  C2. The chain \<open>a = b = c\<close> does not parse to \<open>(= a (= b c))\<close>: the comparison of line 269 is
  strict, so the second \<open>=\<close> closes the first (lines 280-329), and both assignment nodes
  carry their operands in reverse order; the result is \<open>(= c (= b a))\<close>. The additive chain
  \<open>a + b - c\<close> parses to \<open>(- (+ a b) c)\<close> as the claim says.
\<close>

theorem assignment_chain_is_mirrored:
  "parse_tree [tk tk_alnumus ''a'', tk tk_simple_assignment ''='', tk tk_alnumus ''b'',
               tk tk_simple_assignment ''='', tk tk_alnumus ''c'']
     = Inr (Op (of_tk tk_simple_assignment)
              [Leaf ''c'', Op (of_tk tk_simple_assignment) [Leaf ''b'', Leaf ''a'']])
   \<and> parse_tree [tk tk_alnumus ''a'', tk tk_addition ''+'', tk tk_alnumus ''b'',
                 tk tk_subtraction ''-'', tk tk_alnumus ''c'']
     = Inr (Op (of_tk tk_subtraction) [Op (of_tk tk_addition) [Leaf ''a'', Leaf ''b''], Leaf ''c''])"
  by code_simp

text \<open>
  C4. A call after a member access takes the last name alone for its callee: in both
  places that build a call node (lines 131-151 and 205-224) the callee is the single token
  before the parenthesis, and the call node becomes the right operand of the member
  access. So \<open>foo.bar()\<close> comes back as \<open>(. foo (call bar args()))\<close>, not as
  \<open>(call (. foo bar) args())\<close>, and \<open>a.b().c\<close> as \<open>(. (. a (call b args())) c)\<close>, not as
  \<open>(. (call (. a b) args()) c)\<close>.
\<close>

theorem call_of_member_takes_last_name:
  "parse_tree [tk tk_alnumus ''foo'', tk tk_period ''.'', tk tk_alnumus ''bar'',
               tk tk_open_scope ''('', tk tk_close_scope '')'']
     = Inr (Op (of_tk tk_period) [Leaf ''foo'', Op function_call [Leaf ''bar'', Op arguments []]])
   \<and> parse_tree [tk tk_alnumus ''a'', tk tk_period ''.'', tk tk_alnumus ''b'',
                 tk tk_open_scope ''('', tk tk_close_scope '')'', tk tk_period ''.'', tk tk_alnumus ''c'']
     = Inr (Op (of_tk tk_period)
              [Op (of_tk tk_period) [Leaf ''a'', Op function_call [Leaf ''b'', Op arguments []]],
               Leaf ''c''])"
  by code_simp

text \<open>
  C3, as the claim states it, fails: the expression that is the single token \<open>*\<close> is
  returned as a node of kind multiplication without children (lines 127-130 take the
  first token for an operand).
\<close>

theorem leaf_operator_counterexample:
  "build_statement [tk tk_multiplication ''*''] 0 1 None = Inr (Node (of_tk tk_multiplication) (Some (0, 1)) [])
   \<and> \<not> arity_ok (Node (of_tk tk_multiplication) (Some (0, 1)) [])"
  by code_simp

text \<open>
  The placement of the operators is inherited by every range a recursive call works on,
  and it decides the kinds that the passes read.
\<close>

lemma operators_placed_nth:
  "operators_placed ks \<Longrightarrow> Suc i < length ks \<Longrightarrow> pair_ok (ks ! i) (ks ! Suc i)"
proof (induction ks arbitrary: i rule: operators_placed.induct)
  case (1 t1 t2 ts)
  then show ?case by (cases i) simp_all
qed simp_all

lemma kinds_between_nth:
  "e \<le> length toks \<Longrightarrow> b + i < e \<Longrightarrow> kinds_between toks b e ! i = tk_kind (toks ! (b + i))"
  by (simp add: kinds_between_def)

lemma length_kinds_between_eq: "e \<le> length toks \<Longrightarrow> length (kinds_between toks b e) = e - b"
  by (simp add: kinds_between_def)

lemma well_placed_placed:
  assumes "e \<le> length toks" and "well_placed (kinds_between toks b e)"
  shows "placed toks b e \<and> fresh_ok toks b e"
proof -
  from assms(2) have op: "operators_placed (kinds_between toks b e)" by (simp add: well_placed_def)
  have "pair_ok (tk_kind (toks ! i)) (tk_kind (toks ! Suc i))" if "b \<le> i" "Suc i < e" for i
  proof -
    from that have "Suc (i - b) < length (kinds_between toks b e)"
      using length_kinds_between_eq [OF assms(1), of b] by simp
    from operators_placed_nth [OF op this] that
      kinds_between_nth [OF assms(1), of b "i - b"] kinds_between_nth [OF assms(1), of b "Suc (i - b)"]
    show ?thesis by simp
  qed
  then have p: "placed toks b e" by (simp add: placed_def)
  have "operation_of (tk_kind (toks ! b)) \<noteq> op_binary" if "b < e"
  proof -
    from that assms(1) have "kinds_between toks b e \<noteq> []"
      using length_kinds_between_eq [OF assms(1), of b] by auto
    then obtain t ts where ks: "kinds_between toks b e = t # ts" by (cases "kinds_between toks b e") auto
    with kinds_between_nth [OF assms(1), of b 0] that have "t = tk_kind (toks ! b)" by simp
    with assms(2) ks show ?thesis by (simp add: well_placed_def)
  qed
  with p show ?thesis by (simp add: fresh_ok_def)
qed

lemma type_at_eq: "i < e \<Longrightarrow> e \<le> length toks \<Longrightarrow> type_at toks e i = tk_kind (toks ! i)"
  by (simp add: type_at_def get_def)

lemma type_at_end: "e \<le> i \<Longrightarrow> type_at toks e i = tk_eof"
  by (simp add: type_at_def get_def sentinel_end_token_def)

lemma placedD: "placed toks b e \<Longrightarrow> b \<le> i \<Longrightarrow> Suc i < e \<Longrightarrow> pair_ok (tk_kind (toks ! i)) (tk_kind (toks ! Suc i))"
  by (simp add: placed_def)

lemma placed_sub: "placed toks b e \<Longrightarrow> b \<le> b' \<Longrightarrow> e' \<le> e \<Longrightarrow> placed toks b' e'"
  by (simp add: placed_def)

lemma scan_scope_close:
  "scan_scope cls ts pos d = Some x \<Longrightarrow> pos < x \<and> x \<le> pos + length ts \<and> ts ! (x - 1 - pos) = cls"
proof (induction ts arbitrary: pos d)
  case Nil
  then show ?case by simp
next
  case (Cons t ts)
  show ?case
  proof (cases "step_depths t d")
    case None
    with Cons.prems show ?thesis by simp
  next
    case (Some d')
    show ?thesis
    proof (cases "t = cls \<and> depth_of cls d' = 0")
      case True
      with Cons.prems Some show ?thesis by (auto split: if_splits)
    next
      case False
      with Cons.prems Some have r: "scan_scope cls ts (pos + 1) d' = Some x" by auto
      from Cons.IH [OF r] have "pos + 1 < x" "x \<le> pos + 1 + length ts" "ts ! (x - 1 - (pos + 1)) = cls"
        by simp_all
      moreover from this have "(t # ts) ! (x - 1 - pos) = ts ! (x - 1 - (pos + 1))"
        by (simp add: nth_Cons')
      ultimately show ?thesis by simp
    qed
  qed
qed

lemma find_scope_close:
  assumes "valid (find_scope toks b e)" and "e \<le> length toks"
  shows "tk_kind (toks ! (scope_end (find_scope toks b e) - 1)) = tk_close_scope"
proof -
  from assms(1) obtain d x where b: "b < e"
    and x: "scan_scope tk_close_scope (kinds_between toks (b + 1) e) (b + 1) d = Some x"
    and r: "scope_end (find_scope toks b e) = x"
    by (auto simp: find_scope_def find_scope_of_def split: if_splits option.splits)
  from scan_scope_close [OF x] length_kinds_between_eq [OF assms(2), of "b + 1"]
  have bounds: "b + 1 < x" "x \<le> e" and c: "kinds_between toks (b + 1) e ! (x - 1 - (b + 1)) = tk_close_scope"
    using b by simp_all
  define j where "j = x - 1 - (b + 1)"
  from bounds have j: "b + 1 + j = x - 1" "b + 1 + j < e" unfolding j_def by arith+
  from kinds_between_nth [OF assms(2) j(2)] c have "tk_kind (toks ! (b + 1 + j)) = tk_close_scope"
    unfolding j_def by simp
  then show ?thesis unfolding j(1) r .
qed

lemma operation_of_unary: "(operation_of t = op_unary) = (t = tk_negation)"
  by (cases t) simp_all

lemma operand_kind_none: "operand_kind t \<Longrightarrow> operation_of t = op_none \<and> t \<noteq> tk_open_scope \<and> t \<noteq> tk_negation"
  by (auto simp: operand_kind_def)

lemma next_n_in: "i + n < e \<Longrightarrow> next_n e i n = i + n"
  by (simp add: next_n_def)

lemma next_n_out: "e \<le> i + n \<Longrightarrow> next_n e i n = e"
  by (simp add: next_n_def)

lemma arity_leaf: "arity_ok (to_statement toks e i) = (operation_of (type_at toks e i) = op_none)"
  by (simp add: to_statement_def children_count_ok_def split: Operation.splits)

lemma arity_push_back: "pass_ok lp \<Longrightarrow> arity_ok c \<Longrightarrow> arity_ok (push_back lp c)"
  by (cases lp) (auto simp: pass_ok_def push_back_def numeral_2_eq_2)

lemma arity_push_front: "pass_ok lp \<Longrightarrow> arity_ok c \<Longrightarrow> arity_ok (push_front lp c)"
  by (cases lp) (auto simp: pass_ok_def push_front_def numeral_2_eq_2)

lemma pass_ok_push:
  "type_at toks e i \<noteq> tk_negation \<Longrightarrow> arity_ok c \<Longrightarrow> pass_ok (push_back (to_statement toks e i) c)"
  by (simp add: pass_ok_def push_back_def to_statement_def children_count_ok_def operation_of_unary
      split: Operation.splits)

lemma arity_unary_node:
  "type_at toks e i = tk_negation \<Longrightarrow> arity_ok c \<Longrightarrow> arity_ok (push_back (to_statement toks e i) c)"
  by (simp add: push_back_def to_statement_def children_count_ok_def)

lemma arity_lhs:
  assumes "pass_ok lp" and "children lp = f # fs" and "arity_ok c"
  shows "arity_ok (push_back (push_back (Node (kind lp) None []) f) c)"
    and "arity_ok (push_back (push_back (Node (kind lp) None []) c) f)"
  using assms by (auto simp: pass_ok_def push_back_def numeral_2_eq_2)

lemma arity_call:
  "operation_of (type_at toks e i) = op_none \<Longrightarrow>
   arity_ok (push_back (push_back (Node function_call sp []) (to_statement toks e i)) (Node arguments sp' []))"
  by (simp add: push_back_def to_statement_def children_count_ok_def)

lemma not_unary_after:
  assumes "placed toks b e" and "e \<le> length toks" and "b \<le> i" and "Suc i < e"
    and "type_at toks e i \<noteq> tk_open_scope" and "operation_of (type_at toks e i) \<noteq> op_binary"
  shows "type_at toks e (Suc i) \<noteq> tk_negation"
  using placedD [OF assms(1,3,4)] assms(2,4,5,6)
  by (auto simp: pair_ok_def type_at_eq split: if_splits)

lemma operand_after_unary:
  assumes "placed toks b e" and "e \<le> length toks" and "b \<le> i" and "Suc i < e"
    and "type_at toks e i = tk_negation"
  shows "operand_kind (type_at toks e (Suc i))"
  using placedD [OF assms(1,3,4)] assms(2,4,5)
  by (auto simp: pair_ok_def type_at_eq split: if_splits)

lemma not_binary_after_scope:
  assumes "placed toks b e" and "e \<le> length toks" and "b \<le> i" and "Suc i < e"
    and "type_at toks e i = tk_open_scope"
  shows "operation_of (type_at toks e (Suc i)) \<noteq> op_binary"
  using placedD [OF assms(1,3,4)] assms(2,4,5)
  by (auto simp: pair_ok_def type_at_eq split: if_splits)

lemma not_unary_after_scope:
  assumes "placed toks b e" and "e \<le> length toks" and "b \<le> i" and "i < e"
    and "valid (find_scope toks i e)" and "scope_end (find_scope toks i e) \<noteq> e"
  shows "type_at toks e (scope_end (find_scope toks i e)) \<noteq> tk_negation"
proof -
  let ?x = "scope_end (find_scope toks i e)"
  from find_scope_of_valid [of tk_open_scope tk_close_scope toks i e] assms(5,6)
  have x: "i + 1 < ?x" "?x < e" by (simp_all add: find_scope_def)
  from find_scope_close [OF assms(5,2)] x assms(2)
  have c: "type_at toks e (?x - 1) = tk_close_scope" by (simp add: type_at_eq)
  from x assms(3) have "b \<le> ?x - 1" "Suc (?x - 1) < e" by arith+
  from not_unary_after [OF assms(1,2) this] c x show ?thesis by simp
qed

lemma rhs_operand_shape:
  assumes "rhs_operand_check toks e it = None" and "next_n e it 1 \<noteq> e"
  shows "operand_kind (type_at toks e (Suc it))
         \<or> (type_at toks e (Suc it) = tk_negation \<and> Suc (Suc it) < e)
         \<or> (type_at toks e (Suc it) = tk_open_scope \<and> valid (find_scope toks (Suc it) e)
             \<and> \<not> is_empty (find_scope toks (Suc it) e))"
proof -
  from next_n_neq_end [OF assms(2)] have n: "next_n e it 1 = Suc it" "Suc it < e" by simp_all
  have n2: "next_n e it 2 \<noteq> e \<Longrightarrow> Suc (Suc it) < e" using next_n_neq_end [of e it 2] by simp
  from assms(1) show ?thesis unfolding rhs_operand_check_def n operation_def operation_of_unary
    by (auto simp: operand_kind_def Let_def dest: n2 split: if_splits)
qed

text \<open>
  The three branches of a fresh start (lines 85-157) and the continuation pass (lines
  158-331), each under the assumption that the calls on shorter ranges return trees of the
  right shape.
\<close>

lemma fresh_unary_arity:
  assumes IH: "\<And>b' e' lp' t'. e' - b' < e - b \<Longrightarrow> arity_pre toks b' e' lp' \<Longrightarrow>
                 build_statement toks b' e' lp' = Inr t' \<Longrightarrow> arity_ok t'"
    and len: "e \<le> length toks" and pl: "placed toks b e"
    and u: "type_at toks e b = tk_negation"
    and res: "build_statement toks b e None = Inr t"
  shows "arity_ok t"
proof -
  note eq = build_statement.simps(1) [of toks b e]
  from u have b: "b < e" using type_at_in_range [of toks e b] by simp
  from u have op: "operation toks e b = op_unary" by (simp add: operation_def)
  have leaf1: "arity_ok (to_statement toks e (next_n e b 1))"
  proof (cases "Suc b < e")
    case True
    from operand_after_unary [OF pl len _ True u] True show ?thesis
      by (simp add: arity_leaf next_n_in operand_kind_none)
  next
    case False
    then show ?thesis by (simp add: arity_leaf next_n_out type_at_end)
  qed
  note un = arity_unary_node [OF u leaf1]
  show ?thesis
  proof (cases "next_n e b 2 = e")
    case True
    with res op have "t = push_back (to_statement toks e b) (to_statement toks e (next_n e b 1))"
      by (simp add: eq Let_def)
    with un show ?thesis by simp
  next
    case False
    from next_n_neq_end [OF False] have n2: "next_n e b 2 = b + 2" "b + 2 < e" by simp_all
    then have s1: "Suc b < e" "Suc (Suc b) < e" by simp_all
    from operand_after_unary [OF pl len _ s1(1) u]
    have "type_at toks e (Suc b) \<noteq> tk_open_scope" "operation_of (type_at toks e (Suc b)) \<noteq> op_binary"
      by (simp_all add: operand_kind_none)
    from not_unary_after [OF pl len _ s1(2) this]
    have o2: "type_at toks e (next_n e b 2) \<noteq> tk_negation" using n2 by simp
    from n2 b have m: "e - next_n e b 2 < e - b" by simp
    from pl n2 have pl2: "placed toks (next_n e b 2) e" by (simp add: placed_sub)
    show ?thesis
    proof (cases "importance toks e b < importance toks e (next_n e b 2)")
      case True
      with res op False obtain rest where
        r: "build_statement toks (next_n e b 2) e
              (Some (push_back (to_statement toks e (next_n e b 2)) (to_statement toks e (next_n e b 1)))) = Inr rest"
        and t: "t = push_back (to_statement toks e b) rest"
        by (auto simp add: eq Let_def split: sum.splits)
      from pass_ok_push [OF o2 leaf1] len pl2
      have "arity_pre toks (next_n e b 2) e
              (Some (push_back (to_statement toks e (next_n e b 2)) (to_statement toks e (next_n e b 1))))"
        by (simp add: arity_pre_def)
      from IH [OF m this r] have "arity_ok rest" .
      from arity_unary_node [OF u this] t show ?thesis by simp
    next
      case nlt: False
      with res op False have
        r: "build_statement toks (next_n e b 2) e
              (Some (push_back (to_statement toks e (next_n e b 2))
                 (push_back (to_statement toks e b) (to_statement toks e (next_n e b 1))))) = Inr t"
        by (simp add: eq Let_def)
      from pass_ok_push [OF o2 un] len pl2
      have "arity_pre toks (next_n e b 2) e
              (Some (push_back (to_statement toks e (next_n e b 2))
                 (push_back (to_statement toks e b) (to_statement toks e (next_n e b 1)))))"
        by (simp add: arity_pre_def)
      from IH [OF m this r] show ?thesis .
    qed
  qed
qed

lemma fresh_scope_arity:
  assumes IH: "\<And>b' e' lp' t'. e' - b' < e - b \<Longrightarrow> arity_pre toks b' e' lp' \<Longrightarrow>
                 build_statement toks b' e' lp' = Inr t' \<Longrightarrow> arity_ok t'"
    and len: "e \<le> length toks" and pl: "placed toks b e"
    and u: "type_at toks e b = tk_open_scope"
    and res: "build_statement toks b e None = Inr t"
  shows "arity_ok t"
proof -
  note eq = build_statement.simps(1) [of toks b e]
  let ?s = "find_scope toks b e"
  from u have b: "b < e" using type_at_in_range [of toks e b] by simp
  from u have op: "operation toks e b \<noteq> op_unary" by (simp add: operation_def)
  from res op u have v: "valid ?s" and ne: "\<not> is_empty ?s"
    by (auto simp add: eq Let_def split: if_splits)
  from find_scope_of_valid [of tk_open_scope tk_close_scope toks b e] v
  have x: "b + 1 < scope_end ?s" "scope_end ?s \<le> e" "scope_begin ?s = b" by (simp_all add: find_scope_def)
  then have cb: "contained_begin ?s = Suc b" and ce: "contained_end ?s = scope_end ?s - 1"
    by (simp_all add: contained_begin_def contained_end_def)
  from x b have m: "contained_end ?s - contained_begin ?s < e - b" unfolding cb ce by arith
  from pl x have pli: "placed toks (contained_begin ?s) (contained_end ?s)"
    unfolding cb ce by (simp add: placed_sub)
  have fr: "fresh_ok toks (contained_begin ?s) (contained_end ?s)"
    unfolding fresh_ok_def cb ce
  proof
    assume "Suc b < scope_end ?s - 1"
    with x have "Suc b < e" by arith
    from not_binary_after_scope [OF pl len _ this u] this len
    show "operation_of (tk_kind (toks ! Suc b)) \<noteq> op_binary" by (simp add: type_at_eq)
  qed
  from x len have "contained_end ?s \<le> length toks" unfolding ce by arith
  with pli fr have pre: "arity_pre toks (contained_begin ?s) (contained_end ?s) None"
    by (simp add: arity_pre_def)
  show ?thesis
  proof (cases "scope_end ?s = e")
    case True
    with res op u v ne
    have "build_statement toks (contained_begin ?s) (contained_end ?s) None = Inr t"
      by (simp add: eq Let_def)
    from IH [OF m pre this] show ?thesis .
  next
    case False
    with res op u v ne obtain inner where
      i: "build_statement toks (contained_begin ?s) (contained_end ?s) None = Inr inner"
      and r: "build_statement toks (scope_end ?s) e
                (Some (push_back (to_statement toks e (scope_end ?s)) inner)) = Inr t"
      by (auto simp add: eq Let_def split: sum.splits)
    from IH [OF m pre i] have ai: "arity_ok inner" .
    from not_unary_after_scope [OF pl len _ b v False]
    have "type_at toks e (scope_end ?s) \<noteq> tk_negation" by simp
    from pass_ok_push [OF this ai] len pl x
    have p2: "arity_pre toks (scope_end ?s) e (Some (push_back (to_statement toks e (scope_end ?s)) inner))"
      by (simp add: arity_pre_def placed_sub)
    from x b have "e - scope_end ?s < e - b" by arith
    from IH [OF this p2 r] show ?thesis .
  qed
qed

lemma fresh_operand_arity:
  assumes IH: "\<And>b' e' lp' t'. e' - b' < e - b \<Longrightarrow> arity_pre toks b' e' lp' \<Longrightarrow>
                 build_statement toks b' e' lp' = Inr t' \<Longrightarrow> arity_ok t'"
    and len: "e \<le> length toks" and pl: "placed toks b e" and fr: "fresh_ok toks b e"
    and nu: "type_at toks e b \<noteq> tk_negation" and ns: "type_at toks e b \<noteq> tk_open_scope"
    and res: "build_statement toks b e None = Inr t"
  shows "arity_ok t"
proof -
  note eq = build_statement.simps(1) [of toks b e]
  from nu have op: "operation toks e b \<noteq> op_unary" by (simp add: operation_def operation_of_unary)
  have nb: "operation_of (type_at toks e b) \<noteq> op_binary"
  proof (cases "b < e")
    case True
    with fr len show ?thesis by (simp add: fresh_ok_def type_at_eq)
  next
    case False
    then show ?thesis by (simp add: type_at_end)
  qed
  with nu have none: "operation_of (type_at toks e b) = op_none"
    by (cases "operation_of (type_at toks e b)") (simp_all add: operation_of_unary)
  then have leaf: "arity_ok (to_statement toks e b)" by (simp add: arity_leaf)
  show ?thesis
  proof (cases "next_n e b 1 = e")
    case True
    with res op ns have "t = to_statement toks e b" by (simp add: eq Let_def)
    with leaf show ?thesis by simp
  next
    case False
    from next_n_neq_end [OF False] have n1: "next_n e b 1 = Suc b" "Suc b < e" by simp_all
    show ?thesis
    proof (cases "type_at toks e (Suc b) = tk_open_scope")
      case True
      let ?s = "find_scope toks (Suc b) e"
      let ?call = "push_back (push_back (Node function_call (Some (b, scope_end ?s)) []) (to_statement toks e b))
                     (Node arguments (Some (contained_begin ?s, contained_end ?s)) [])"
      from res op ns False True n1 have v: "valid ?s"
        by (auto simp add: eq Let_def split: if_splits)
      from none have call: "arity_ok ?call" by (rule arity_call)
      show ?thesis
      proof (cases "scope_end ?s = e")
        case e: True
        with res op ns False True n1 v have "t = ?call" by (simp add: eq Let_def)
        with call show ?thesis by simp
      next
        case ne: False
        with res op ns False True n1 v have
          r: "build_statement toks (scope_end ?s) e
                (Some (push_back (to_statement toks e (scope_end ?s)) ?call)) = Inr t"
          by (simp add: eq Let_def)
        from find_scope_of_valid [of tk_open_scope tk_close_scope toks "Suc b" e] v
        have x: "Suc b + 1 < scope_end ?s" "scope_end ?s \<le> e" by (simp_all add: find_scope_def)
        from not_unary_after_scope [OF pl len _ n1(2) v ne]
        have "type_at toks e (scope_end ?s) \<noteq> tk_negation" by simp
        from pass_ok_push [OF this call] len pl x
        have p2: "arity_pre toks (scope_end ?s) e (Some (push_back (to_statement toks e (scope_end ?s)) ?call))"
          by (simp add: arity_pre_def placed_sub)
        from x n1 have "e - scope_end ?s < e - b" by arith
        from IH [OF this p2 r] show ?thesis .
      qed
    next
      case ncall: False
      with res op ns False n1 have
        r: "build_statement toks (Suc b) e
              (Some (push_back (to_statement toks e (Suc b)) (to_statement toks e b))) = Inr t"
        by (simp add: eq Let_def)
      from not_unary_after [OF pl len _ n1(2) ns nb]
      have "type_at toks e (Suc b) \<noteq> tk_negation" by simp
      from pass_ok_push [OF this leaf] len pl
      have p2: "arity_pre toks (Suc b) e (Some (push_back (to_statement toks e (Suc b)) (to_statement toks e b)))"
        by (simp add: arity_pre_def placed_sub)
      from n1 have "e - Suc b < e - b" by arith
      from IH [OF this p2 r] show ?thesis .
    qed
  qed
qed

lemma arity_none_node: "arity_ok (Node none None [])"
  by (simp add: children_count_ok_def)

lemma function_call_arity:
  assumes "function_call_check toks e it n = Inr (ofc, noi)"
    and "operation_of (type_at toks e (next_n e it 1)) = op_none"
  shows "arity_ok ofc"
  using assms arity_call [OF assms(2)]
  by (auto simp: function_call_check_def Let_def children_count_ok_def split: if_splits)

lemma find_scope_begin: "scope_begin (find_scope toks i e) = i"
  using find_scope_of_valid [of tk_open_scope tk_close_scope toks i e]
    find_scope_of_invalid [of tk_open_scope tk_close_scope toks i e]
  by (cases "valid (find_scope toks i e)") (simp_all add: find_scope_def)

lemma scope_inner_pre:
  assumes len: "e \<le> length toks" and pl: "placed toks b e" and bi: "b \<le> i"
    and u: "type_at toks e i = tk_open_scope" and v: "valid (find_scope toks i e)"
  shows "arity_pre toks (contained_begin (find_scope toks i e)) (contained_end (find_scope toks i e)) None"
proof -
  let ?s = "find_scope toks i e"
  from u have b: "i < e" using type_at_in_range [of toks e i] by simp
  from find_scope_of_valid [of tk_open_scope tk_close_scope toks i e] v
  have x: "i + 1 < scope_end ?s" "scope_end ?s \<le> e" "scope_begin ?s = i" by (simp_all add: find_scope_def)
  then have cb: "contained_begin ?s = Suc i" and ce: "contained_end ?s = scope_end ?s - 1"
    by (simp_all add: contained_begin_def contained_end_def)
  from pl x bi have pli: "placed toks (contained_begin ?s) (contained_end ?s)"
    unfolding cb ce by (simp add: placed_sub)
  have fr: "fresh_ok toks (contained_begin ?s) (contained_end ?s)"
    unfolding fresh_ok_def cb ce
  proof
    assume "Suc i < scope_end ?s - 1"
    with x have "Suc i < e" by arith
    from not_binary_after_scope [OF pl len bi this u] this len
    show "operation_of (tk_kind (toks ! Suc i)) \<noteq> op_binary" by (simp add: type_at_eq)
  qed
  from x len have "contained_end ?s \<le> length toks" unfolding ce by arith
  with pli fr show ?thesis by (simp add: arity_pre_def)
qed

lemma next_operator_not_unary:
  assumes len: "e \<le> length toks" and pl: "placed toks it e"
    and ne: "next_n e it 1 \<noteq> e"
    and rc: "rhs_operand_check toks e it = None"
    and fc: "function_call_check toks e it (first_next_operator toks e it) = Inr (ofc, noi)"
    and noi: "noi \<noteq> e"
  shows "type_at toks e noi \<noteq> tk_negation"
proof -
  let ?f = "first_next_operator toks e it"
  from next_n_neq_end [OF ne] have n1: "next_n e it 1 = Suc it" "Suc it < e" by simp_all
  from first_next_operator_bounds [OF ne, of toks] have f: "it < ?f" "?f \<le> e" by simp_all
  show ?thesis
  proof (cases "type_at toks e ?f = tk_open_scope")
    case True
    then have fe: "?f < e" using type_at_in_range [of toks e ?f] by simp
    from fc True have v: "valid (find_scope toks ?f e)" and n: "noi = scope_end (find_scope toks ?f e)"
      by (auto simp: function_call_check_def Let_def split: if_splits)
    from f have "it \<le> ?f" by simp
    from not_unary_after_scope [OF pl len this fe v] noi n show ?thesis by simp
  next
    case False
    with fc have n: "noi = ?f" by (simp add: function_call_check_def)
    from rhs_operand_shape [OF rc ne]
    consider (a) "operand_kind (type_at toks e (Suc it))"
      | (u) "type_at toks e (Suc it) = tk_negation" "Suc (Suc it) < e"
      | (s) "type_at toks e (Suc it) = tk_open_scope" "valid (find_scope toks (Suc it) e)"
      by blast
    then show ?thesis
    proof cases
      case a
      then have k: "type_at toks e (Suc it) \<noteq> tk_negation" "type_at toks e (Suc it) \<noteq> tk_open_scope"
        "operation_of (type_at toks e (Suc it)) \<noteq> op_binary"
        by (simp_all add: operand_kind_none)
      with n1 have "?f = next_n e it 2"
        by (simp add: first_next_operator_def operation_def operation_of_unary)
      with n noi next_n_neq_end [of e it 2] have n2: "noi = Suc (Suc it)" "Suc (Suc it) < e" by simp_all
      from not_unary_after [OF pl len _ n2(2) k(2,3)] n2 show ?thesis by simp
    next
      case u
      with n1 have "?f = next_n e it 3"
        by (simp add: first_next_operator_def operation_def)
      with n noi next_n_neq_end [of e it 3] have n3: "noi = Suc (Suc (Suc it))" "Suc (Suc (Suc it)) < e"
        by simp_all
      from operand_after_unary [OF pl len _ u(2,1)]
      have "type_at toks e (Suc (Suc it)) \<noteq> tk_open_scope"
        "operation_of (type_at toks e (Suc (Suc it))) \<noteq> op_binary"
        by (simp_all add: operand_kind_none)
      from not_unary_after [OF pl len _ n3(2) this] n3 show ?thesis by simp
    next
      case s
      with n1 have "?f = scope_end (find_scope toks (Suc it) e)"
        by (simp add: first_next_operator_def operation_def)
      with n noi not_unary_after_scope [OF pl len _ n1(2) s(2)] show ?thesis by simp
    qed
  qed
qed

lemma pass_arity:
  assumes IH: "\<And>b' e' lp' t'. e' - b' < e - it \<Longrightarrow> arity_pre toks b' e' lp' \<Longrightarrow>
                 build_statement toks b' e' lp' = Inr t' \<Longrightarrow> arity_ok t'"
    and len: "e \<le> length toks" and pl: "placed toks it e" and po: "pass_ok lp"
    and res: "build_statement toks it e (Some lp) = Inr t"
  shows "arity_ok t"
proof -
  note eq = build_statement.simps(2) [of toks it e lp]
  have c0: "\<not> (next_n e it 1 = e \<or> type_at toks e (next_n e it 1) = tk_eof)"
  proof
    assume "next_n e it 1 = e \<or> type_at toks e (next_n e it 1) = tk_eof"
    with res show False unfolding eq by simp
  qed
  then have ne: "next_n e it 1 \<noteq> e" and neof: "type_at toks e (next_n e it 1) \<noteq> tk_eof"
    by simp_all
  from next_n_neq_end [OF ne] neof
  have n1: "next_n e it 1 = Suc it" "Suc it < e" "type_at toks e (Suc it) \<noteq> tk_eof" by simp_all
  have rc: "rhs_operand_check toks e it = None"
  proof (cases "rhs_operand_check toks e it")
    case (Some x)
    with res c0 show ?thesis unfolding eq by simp
  qed simp
  obtain ofc noi where fc: "function_call_check toks e it (first_next_operator toks e it) = Inr (ofc, noi)"
  proof (cases "function_call_check toks e it (first_next_operator toks e it)")
    case (Inl x)
    with res c0 rc show ?thesis unfolding eq by simp
  next
    case (Inr p)
    with that show ?thesis by (cases p) simp
  qed
  note st = eq rc fc Let_def
  from first_next_operator_bounds [OF ne, of toks] function_call_check_bounds [OF fc]
  have nb: "it < noi" "noi \<le> e" by simp_all
  from po obtain f where ch: "children lp = [f]" and af: "arity_ok f"
    by (cases "children lp") (auto simp: pass_ok_def)
  have next_pre: "arity_pre toks noi e (Some (push_back (to_statement toks e noi) c))"
    if "arity_ok c" "noi \<noteq> e" for c
    using pass_ok_push [OF next_operator_not_unary [OF len pl ne rc fc that(2)] that(1)] len pl nb
    by (simp add: arity_pre_def placed_sub)
  have next_m: "e - noi < e - it" if "noi \<noteq> e"
    using nb that by arith
  have lhs_ok: "arity_ok (if associativity toks e it = assoc_right
                          then push_back (push_back (Node (kind lp) None []) c) f
                          else push_back (push_back (Node (kind lp) None []) f) c)"
    if "arity_ok c" for c
    using arity_lhs [OF po _ that, of f "[]"] ch by simp
  have attach: "arity_ok (push_front lp c)" "arity_ok (push_back lp c)" if "arity_ok c" for c
    using arity_push_front [OF po that] arity_push_back [OF po that] by simp_all
  from rhs_operand_shape [OF rc ne]
  consider (a) "operand_kind (type_at toks e (Suc it))"
    | (u) "type_at toks e (Suc it) = tk_negation" "Suc (Suc it) < e"
    | (s) "type_at toks e (Suc it) = tk_open_scope" "valid (find_scope toks (Suc it) e)"
    by blast
  note shape = this
  have unode: "arity_ok (push_back (to_statement toks e (Suc it)) (to_statement toks e (next_n e it 2)))"
    if "type_at toks e (Suc it) = tk_negation" "Suc (Suc it) < e"
  proof -
    from that have "next_n e it 2 = Suc (Suc it)" by (simp add: next_n_def)
    with operand_after_unary [OF pl len _ that(2,1)]
    have "arity_ok (to_statement toks e (next_n e it 2))" by (simp add: arity_leaf operand_kind_none)
    from arity_unary_node [OF that(1) this] show ?thesis .
  qed
  have inner_pre: "arity_pre toks (contained_begin (find_scope toks (Suc it) e))
                     (contained_end (find_scope toks (Suc it) e)) None"
    if "type_at toks e (Suc it) = tk_open_scope" "valid (find_scope toks (Suc it) e)"
    using scope_inner_pre [OF len pl _ that] by simp
  have inner_m: "contained_end (find_scope toks (Suc it) e) - contained_begin (find_scope toks (Suc it) e) < e - it"
    using term_scope_inner_next [of e it toks] ne n1 by simp
  show ?thesis
  proof (cases "noi = e")
    case True
    from shape show ?thesis
    proof cases
      case a
      then have k: "type_at toks e (Suc it) \<noteq> tk_negation" "type_at toks e (Suc it) \<noteq> tk_open_scope"
        "operation_of (type_at toks e (Suc it)) = op_none"
        by (simp_all add: operand_kind_none)
      from k have leaf: "arity_ok (to_statement toks e (Suc it))" by (simp add: arity_leaf)
      from function_call_arity [OF fc] k n1 have call: "arity_ok ofc" by simp
      from res True k n1 have "t = push_front lp ofc \<or> t = push_front lp (to_statement toks e (Suc it))
            \<or> t = push_back lp ofc \<or> t = push_back lp (to_statement toks e (Suc it))"
        unfolding st by (simp add: operation_def split: if_splits)
      with attach [OF leaf] attach [OF call] show ?thesis by auto
    next
      case u
      from res True u n1
      have "t = push_front lp (push_back (to_statement toks e (Suc it)) (to_statement toks e (next_n e it 2)))
            \<or> t = push_back lp (push_back (to_statement toks e (Suc it)) (to_statement toks e (next_n e it 2)))"
        unfolding st by (simp add: operation_def split: if_splits)
      with attach [OF unode [OF u]] show ?thesis by auto
    next
      case s
      then have k: "operation toks e (Suc it) \<noteq> op_unary" by (simp add: operation_def)
      show ?thesis
      proof (cases "associativity toks e it = assoc_right")
        case True
        let ?s = "find_scope toks it e"
        from res \<open>noi = e\<close> s k n1 True obtain inner where
          i: "build_statement toks (contained_begin ?s) (contained_end ?s) None = Inr inner"
          and t: "t = push_front lp inner"
          unfolding st by (auto split: sum.splits)
        from find_scope_end_bounds [of it e toks] n1
        have x: "scope_end ?s \<le> e" by simp
        have cb: "contained_begin ?s = Suc it" by (simp add: contained_begin_def find_scope_begin)
        have ce: "contained_end ?s \<le> e" using x by (simp add: contained_end_def)
        have "fresh_ok toks (Suc it) (contained_end ?s)"
          using s(1) n1 len by (simp add: fresh_ok_def type_at_eq [symmetric])
        with pl ce len have "arity_pre toks (contained_begin ?s) (contained_end ?s) None"
          unfolding cb by (simp add: arity_pre_def placed_sub)
        from IH [OF term_scope_inner_it this i] ne have "arity_ok inner" by simp
        with attach t show ?thesis by simp
      next
        case False
        let ?s = "find_scope toks (Suc it) e"
        from res \<open>noi = e\<close> s k n1 False obtain inner where
          i: "build_statement toks (contained_begin ?s) (contained_end ?s) None = Inr inner"
          and t: "t = push_back lp inner"
          unfolding st by (auto split: sum.splits)
        from IH [OF inner_m inner_pre [OF s] i] attach t show ?thesis by simp
      qed
    qed
  next
    case False
    show ?thesis
    proof (cases "importance toks e it < importance toks e noi")
      case True
      with res False n1 obtain rest where
        r: "build_statement toks (Suc it) e None = Inr rest"
        and t: "t = push_front lp rest \<or> t = push_back lp rest"
        unfolding st by (auto split: sum.splits if_splits)
      from shape have "operation_of (type_at toks e (Suc it)) \<noteq> op_binary"
        by cases (simp_all add: operand_kind_none)
      with n1 len have "fresh_ok toks (Suc it) e" by (simp add: fresh_ok_def type_at_eq)
      with pl len have "arity_pre toks (Suc it) e None" by (simp add: arity_pre_def placed_sub)
      from IH [OF _ this r] n1 have "arity_ok rest" by simp
      with attach t show ?thesis by auto
    next
      case nlt: False
      from shape show ?thesis
      proof cases
        case a
        then have k: "type_at toks e (Suc it) \<noteq> tk_negation" "type_at toks e (Suc it) \<noteq> tk_open_scope"
          "operation_of (type_at toks e (Suc it)) = op_none"
          by (simp_all add: operand_kind_none)
        let ?operand = "if associativity toks e it \<noteq> assoc_right \<and> kind ofc \<noteq> none then ofc
                        else to_statement toks e (Suc it)"
        from k have leaf: "arity_ok (to_statement toks e (Suc it))" by (simp add: arity_leaf)
        from function_call_arity [OF fc] k n1 have call: "arity_ok ofc" by simp
        from leaf call have operand: "arity_ok ?operand" by simp
        from res False nlt k n1 ch have
          r: "build_statement toks noi e
                (Some (push_back (to_statement toks e noi)
                   (if associativity toks e it = assoc_right
                    then push_back (push_back (Node (kind lp) None []) ?operand) f
                    else push_back (push_back (Node (kind lp) None []) f) ?operand))) = Inr t"
          unfolding st
          by (cases "associativity toks e it = assoc_right"; cases "kind ofc = none"; simp add: operation_def)
        from IH [OF next_m [OF False] next_pre [OF lhs_ok [OF operand] False] r] show ?thesis .
      next
        case u
        let ?operand = "push_back (to_statement toks e (Suc it)) (to_statement toks e (next_n e it 2))"
        from res False nlt u n1 ch have
          r: "build_statement toks noi e
                (Some (push_back (to_statement toks e noi)
                   (if associativity toks e it = assoc_right
                    then push_back (push_back (Node (kind lp) None []) ?operand) f
                    else push_back (push_back (Node (kind lp) None []) f) ?operand))) = Inr t"
          unfolding st
          by (cases "associativity toks e it = assoc_right"; cases "kind ofc = none"; simp add: operation_def)
        from IH [OF next_m [OF False] next_pre [OF lhs_ok [OF unode [OF u]] False] r] show ?thesis .
      next
        case s
        let ?s = "find_scope toks (Suc it) e"
        from res False nlt s n1 ch obtain inner where
          i: "build_statement toks (contained_begin ?s) (contained_end ?s) None = Inr inner"
          and r: "build_statement toks noi e
                (Some (push_back (to_statement toks e noi)
                   (if associativity toks e it = assoc_right
                    then push_back (push_back (Node (kind lp) None []) inner) f
                    else push_back (push_back (Node (kind lp) None []) f) inner))) = Inr t"
          unfolding st
          by (cases "associativity toks e it = assoc_right") (auto simp: operation_def split: sum.splits)
        from IH [OF inner_m inner_pre [OF s] i] have "arity_ok inner" .
        from IH [OF next_m [OF False] next_pre [OF lhs_ok [OF this] False] r] show ?thesis .
      qed
    qed
  qed
qed

lemma build_statement_arity:
  "arity_pre toks b e lp \<Longrightarrow> build_statement toks b e lp = Inr t \<Longrightarrow> arity_ok t"
proof (induction "e - b" arbitrary: b e lp t rule: less_induct)
  case less
  from less.prems(1) have len: "e \<le> length toks" and pl: "placed toks b e"
    by (simp_all add: arity_pre_def)
  show ?case
  proof (cases lp)
    case None
    with less.prems have fr: "fresh_ok toks b e" and res: "build_statement toks b e None = Inr t"
      by (simp_all add: arity_pre_def)
    consider (u) "type_at toks e b = tk_negation" | (s) "type_at toks e b = tk_open_scope"
      | (o) "type_at toks e b \<noteq> tk_negation" "type_at toks e b \<noteq> tk_open_scope"
      by blast
    then show ?thesis
    proof cases
      case u
      from fresh_unary_arity [OF less.hyps len pl u res] show ?thesis .
    next
      case s
      from fresh_scope_arity [OF less.hyps len pl s res] show ?thesis .
    next
      case o
      from fresh_operand_arity [OF less.hyps len pl fr o res] show ?thesis .
    qed
  next
    case (Some l)
    with less.prems have po: "pass_ok l" and res: "build_statement toks b e (Some l) = Inr t"
      by (simp_all add: arity_pre_def)
    from pass_arity [OF less.hyps len pl po res] show ?thesis .
  qed
qed

text \<open>
  C3, amended. When the operators of the expression are well placed (the first token is
  not a binary operator, no binary operator directly follows an open parenthesis, every
  unary operator is directly followed by a number literal or an identifier and stands
  first, directly after an open parenthesis or directly after a binary operator), every
  tree that \<open>build_statement\<close> returns has exactly two children at every binary-operator
  node and exactly one child at every unary-operator node. The witness is \<open>1 + !2 * (3)\<close>.
\<close>

theorem operator_nodes_arity:
  assumes "e \<le> length toks" and "well_placed (kinds_between toks b e)"
    and "build_statement toks b e None = Inr ast"
  shows "arity_ok ast"
proof -
  from well_placed_placed [OF assms(1,2)] assms(1) have "arity_pre toks b e None"
    by (simp add: arity_pre_def)
  from build_statement_arity [OF this assms(3)] show ?thesis .
qed

theorem operator_nodes_arity_witness:
  "well_placed (kinds_between
      [tk tk_number_literal ''1'', tk tk_addition ''+'', tk tk_negation ''!'', tk tk_number_literal ''2'',
       tk tk_multiplication ''*'', tk tk_open_scope ''('', tk tk_number_literal ''3'', tk tk_close_scope '')'']
      0 8)
   \<and> build_statement
      [tk tk_number_literal ''1'', tk tk_addition ''+'', tk tk_negation ''!'', tk tk_number_literal ''2'',
       tk tk_multiplication ''*'', tk tk_open_scope ''('', tk tk_number_literal ''3'', tk tk_close_scope '')'']
      0 8 None
     = Inr (Node (of_tk tk_addition) (Some (1, 2))
              [Node (of_tk tk_number_literal) (Some (0, 1)) [],
               Node (of_tk tk_multiplication) (Some (4, 5))
                 [Node (of_tk tk_negation) (Some (2, 3)) [Node (of_tk tk_number_literal) (Some (3, 4)) []],
                  Node (of_tk tk_number_literal) (Some (6, 7)) []]])
   \<and> arity_ok (Node (of_tk tk_addition) (Some (1, 2))
              [Node (of_tk tk_number_literal) (Some (0, 1)) [],
               Node (of_tk tk_multiplication) (Some (4, 5))
                 [Node (of_tk tk_negation) (Some (2, 3)) [Node (of_tk tk_number_literal) (Some (3, 4)) []],
                  Node (of_tk tk_number_literal) (Some (6, 7)) []]])"
proof -
  let ?toks = "[tk tk_number_literal ''1'', tk tk_addition ''+'', tk tk_negation ''!'', tk tk_number_literal ''2'',
       tk tk_multiplication ''*'', tk tk_open_scope ''('', tk tk_number_literal ''3'', tk tk_close_scope '')'']"
  let ?ast = "Node (of_tk tk_addition) (Some (1, 2))
              [Node (of_tk tk_number_literal) (Some (0, 1)) [],
               Node (of_tk tk_multiplication) (Some (4, 5))
                 [Node (of_tk tk_negation) (Some (2, 3)) [Node (of_tk tk_number_literal) (Some (3, 4)) []],
                  Node (of_tk tk_number_literal) (Some (6, 7)) []]]"
  have len: "8 \<le> length ?toks" by simp
  have wp: "well_placed (kinds_between ?toks 0 8)" by code_simp
  have built: "build_statement ?toks 0 8 None = Inr ?ast" by code_simp
  from operator_nodes_arity [OF len wp built] have "arity_ok ?ast" .
  with wp built show ?thesis by simp
qed

section \<open>Properties of the parsing routines\<close>

text \<open>
  C7, as the claim states it, fails: the second child of the node that \<open>ParseDirectiveVar\<close>
  yields for \<open>#var foo = 1 + c * (3 / 4);\<close> is not the tree \<open>(+ 1 (* c (/ 3 4)))\<close>.
\<close>

theorem var_initialiser_counterexample:
  "parsed var_foo_statement (ParseDirectiveVar var_foo_statement 0 (length var_foo_statement))
     \<noteq> Inr (True, 13, anon_variable_definition_assingment,
              [Leaf ''foo'',
               Op (of_tk tk_addition)
                 [Leaf ''1'',
                  Op (of_tk tk_multiplication)
                    [Leaf ''c'', Op (of_tk tk_division) [Leaf ''3'', Leaf ''4'']]]])"
  by code_simp

text \<open>
  C7, amended. \<open>ParseDirectiveVar\<close> succeeds on \<open>#var foo = 1 + c * (3 / 4);\<close>, with the cursor
  one past the \<open>;\<close>, and yields an \<open>anon_variable_definition_assingment\<close> node with exactly two
  children in order: the leaf of the name \<open>foo\<close>, and the node of the whole assignment
  expression \<open>foo = 1 + c * (3 / 4)\<close>, which \<open>ParseValueExpression\<close> parses from the name on
  (line 733): an assignment node with two operands, the leaf \<open>foo\<close> and the tree
  \<open>(+ 1 (* c (/ 3 4)))\<close>. Nothing is said of the order of these two operands.
\<close>

theorem var_initialiser_is_the_assignment:
  "\<exists>init. parsed var_foo_statement (ParseDirectiveVar var_foo_statement 0 (length var_foo_statement))
             = Inr (True, 13, anon_variable_definition_assingment, [Leaf ''foo'', init])
         \<and> assignment_of (Leaf ''foo'')
              (Op (of_tk tk_addition)
                 [Leaf ''1'',
                  Op (of_tk tk_multiplication)
                    [Leaf ''c'', Op (of_tk tk_division) [Leaf ''3'', Leaf ''4'']]])
              init"
proof (intro exI conjI)
  show "parsed var_foo_statement (ParseDirectiveVar var_foo_statement 0 (length var_foo_statement))
          = Inr (True, 13, anon_variable_definition_assingment,
                 [Leaf ''foo'',
                  Op (of_tk tk_simple_assignment)
                    [Op (of_tk tk_addition)
                       [Leaf ''1'',
                        Op (of_tk tk_multiplication)
                          [Leaf ''c'', Op (of_tk tk_division) [Leaf ''3'', Leaf ''4'']]],
                     Leaf ''foo'']])"
    by code_simp
  show "assignment_of (Leaf ''foo'')
          (Op (of_tk tk_addition)
             [Leaf ''1'',
              Op (of_tk tk_multiplication)
                [Leaf ''c'', Op (of_tk tk_division) [Leaf ''3'', Leaf ''4'']]])
          (Op (of_tk tk_simple_assignment)
             [Op (of_tk tk_addition)
                [Leaf ''1'',
                 Op (of_tk tk_multiplication)
                   [Leaf ''c'', Op (of_tk tk_division) [Leaf ''3'', Leaf ''4'']]],
              Leaf ''foo''])"
    by (simp add: assignment_of_def)
qed

text \<open>
  C9, as the claim states it, fails: \<open>&uint[-1...5]\<close> is not parsed into a node with the
  bounds as children; the result is the bare sigil, with the cursor right after it.
\<close>

theorem uint_negated_bound_counterexample:
  "parsed [tk tk_auint ''&uint'', tk tk_open_frame ''['', tk tk_subtraction ''-'', tk tk_number_literal ''1'',
           tk tk_ellipsis ''...'', tk tk_number_literal ''5'', tk tk_close_frame '']'', tk tk_eof []]
     (ParseCsoUint [tk tk_auint ''&uint'', tk tk_open_frame ''['', tk tk_subtraction ''-'',
                    tk tk_number_literal ''1'', tk tk_ellipsis ''...'', tk tk_number_literal ''5'',
                    tk tk_close_frame '']'', tk tk_eof []] 0 8)
   = Inr (True, 1, of_tk tk_auint, [])"
  by code_simp

text \<open>
  C9, amended. For \<open>&int\<close> a bracketed range constraint in which either bound may carry a
  unary minus is parsed into a sigil node whose children are the two bounds, a negated
  bound being a \<open>subtraction\<close> node over the number; the cursor ends after the closing
  bracket. For \<open>&uint\<close> the same holds for a constraint without a minus; a \<open>&uint\<close> followed by
  a constraint with a negated bound is parsed as the bare sigil without children, and the
  cursor ends right after the sigil. The witness is \<open>&int[-42...42]\<close>.
\<close>

theorem sigil_range_constraints:
  assumes "tk_kind i = tk_aint" and "tk_kind u = tk_auint"
    and "tk_kind l = tk_open_frame" and "tk_kind r = tk_close_frame"
    and "tk_kind m = tk_subtraction" and "tk_kind m' = tk_subtraction"
    and "tk_kind a = tk_number_literal" and "tk_kind b = tk_number_literal"
    and "tk_kind d = tk_ellipsis"
  shows "parsed ([i, l, a, d, b, r] @ rest) (ParseCsoInt ([i, l, a, d, b, r] @ rest) 0 (6 + length rest))
           = Inr (True, 6, of_tk tk_aint, [Leaf (literal a), Leaf (literal b)])
       \<and> parsed ([i, l, m, a, d, b, r] @ rest) (ParseCsoInt ([i, l, m, a, d, b, r] @ rest) 0 (7 + length rest))
           = Inr (True, 7, of_tk tk_aint, [Op (of_tk tk_subtraction) [Leaf (literal a)], Leaf (literal b)])
       \<and> parsed ([i, l, a, d, m, b, r] @ rest) (ParseCsoInt ([i, l, a, d, m, b, r] @ rest) 0 (7 + length rest))
           = Inr (True, 7, of_tk tk_aint, [Leaf (literal a), Op (of_tk tk_subtraction) [Leaf (literal b)]])
       \<and> parsed ([i, l, m, a, d, m', b, r] @ rest)
            (ParseCsoInt ([i, l, m, a, d, m', b, r] @ rest) 0 (8 + length rest))
           = Inr (True, 8, of_tk tk_aint,
                  [Op (of_tk tk_subtraction) [Leaf (literal a)], Op (of_tk tk_subtraction) [Leaf (literal b)]])
       \<and> parsed ([u, l, a, d, b, r] @ rest) (ParseCsoUint ([u, l, a, d, b, r] @ rest) 0 (6 + length rest))
           = Inr (True, 6, of_tk tk_auint, [Leaf (literal a), Leaf (literal b)])
       \<and> parsed ([u, l, m, a, d, b, r] @ rest) (ParseCsoUint ([u, l, m, a, d, b, r] @ rest) 0 (7 + length rest))
           = Inr (True, 1, of_tk tk_auint, [])
       \<and> parsed ([u, l, a, d, m, b, r] @ rest) (ParseCsoUint ([u, l, a, d, m, b, r] @ rest) 0 (7 + length rest))
           = Inr (True, 1, of_tk tk_auint, [])"
  using assms
  by (simp add: parsed_def ParseCsoInt_def ParseCsoUint_def result_defs scan_tokens_pack_def
        constrained_int_type_mask_def constrained_uint_type_mask_def kinds_between_def cursor_defs)

theorem sigil_range_constraints_witness:
  "parsed [tk tk_aint ''&int'', tk tk_open_frame ''['', tk tk_subtraction ''-'', tk tk_number_literal ''42'',
           tk tk_ellipsis ''...'', tk tk_number_literal ''42'', tk tk_close_frame '']'', tk tk_eof []]
     (ParseCsoInt [tk tk_aint ''&int'', tk tk_open_frame ''['', tk tk_subtraction ''-'',
                   tk tk_number_literal ''42'', tk tk_ellipsis ''...'', tk tk_number_literal ''42'',
                   tk tk_close_frame '']'', tk tk_eof []] 0 8)
   = Inr (True, 7, of_tk tk_aint, [Op (of_tk tk_subtraction) [Leaf ''42''], Leaf ''42''])"
  using sigil_range_constraints
          [of "tk tk_aint ''&int''" "tk tk_auint ''&uint''" "tk tk_open_frame ''[''" "tk tk_close_frame '']''"
              "tk tk_subtraction ''-''" "tk tk_subtraction ''-''" "tk tk_number_literal ''42''"
              "tk tk_number_literal ''42''" "tk tk_ellipsis ''...''" "[tk tk_eof []]"]
  by (simp add: tk_def)

text \<open>
  C8, as the claim states it, fails: a functional block that starts with \<open>#break;\<close> is an
  error.
\<close>

theorem functional_block_keyword_counterexample:
  "parsed_block [tk tk_break ''#break'', tk tk_eos '';'', tk tk_eof []]
     (ParseFunctionalBlock [tk tk_break ''#break'', tk tk_eos '';'', tk tk_eof []] 0 3)
   = Some (Inr (False, 0, invalid, []))"
  by code_simp

text \<open>One statement of a block, at any place of the token vector.\<close>

lemma take_4: "take (4 + k) (a # b # c # d # rest) = a # b # c # d # take k rest"
  by (simp add: numeral_eq_Suc)

lemma take_3: "take (3 + k) (a # b # c # rest) = a # b # c # take k rest"
  by (simp add: numeral_eq_Suc)

lemma take_5: "take (5 + k) (a # b # c # d # e # rest) = a # b # c # d # e # take k rest"
  by (simp add: numeral_eq_Suc)

lemma step_identifier:
  assumes "tk_kind a = tk_alnumus" "tk_kind b = tk_simple_assignment" "tk_kind c = tk_number_literal"
    "tk_kind d = tk_eos"
  shows "functional_block_statement (pre @ a # b # c # d # rest) (length pre) (length pre + (4 + k)) a
    = Inr (make_success ''ParseIdentifierStatement''
             (Node variable_assignment (Some (length pre, length pre + 3))
                [Node (of_tk tk_alnumus) (Some (length pre, length pre + 1)) [],
                 Node (of_tk tk_simple_assignment) (Some (length pre + 1, length pre + 2)) [],
                 Node (of_tk tk_number_literal) (Some (length pre + 2, length pre + 3)) []])
             (length pre + 4))"
  using assms
  by (simp add: functional_block_statement_def parse_open_statement_def statement_defs kinds_between_def
       take_4 ParseIdentifierStatement_def tok_at_def nth_append push_back_def make_success_def make_result_def)

lemma step_return:
  assumes "tk_kind a = tk_return" "tk_kind b \<in> {tk_number_literal, tk_alnumus}" "tk_kind d = tk_eos"
  shows "functional_block_statement (pre @ a # b # d # rest) (length pre) (length pre + (3 + k)) a
    = Inr (make_success ''ParseDirectiveReturn''
             (Node (of_tk tk_return) (Some (length pre, length pre + 2))
                [Node expression (Some (length pre + 1, length pre + 2))
                   [Node (of_tk (tk_kind b)) (Some (length pre + 1, length pre + 2)) []]])
             (length pre + 3))"
  using assms
  apply (elim insertE emptyE)
  apply (simp_all add: functional_block_statement_def parse_statement_def statement_defs kinds_between_def
       take_3 ParseDirectiveReturn_def tok_at_def nth_append push_back_def make_success_def make_result_def
       build_defs contained_begin_def contained_end_def)
  done

lemma step_var:
  assumes "tk_kind a = tk_var" "tk_kind b = tk_alnumus" "tk_kind d = tk_eos"
  shows "functional_block_statement (pre @ a # b # d # rest) (length pre) (length pre + (3 + k)) a
    = Inr (make_success ''ParseDirectiveVar''
             (Node anon_variable_definition (Some (length pre, length pre + 3))
                [Node (of_tk tk_alnumus) (Some (length pre + 1, length pre + 2)) []])
             (length pre + 3))"
  using assms
  by (simp add: functional_block_statement_def parse_statement_def statement_defs kinds_between_def
       take_3 ParseDirectiveVar_def tok_at_def nth_append push_back_def make_success_def make_result_def
       build_defs contained_begin_def contained_end_def)

lemma step_var_assignment:
  assumes "tk_kind a = tk_var" "tk_kind b = tk_alnumus" "tk_kind q = tk_simple_assignment"
    "tk_kind c \<in> {tk_number_literal, tk_alnumus}" "tk_kind d = tk_eos"
  shows "functional_block_statement (pre @ a # b # q # c # d # rest) (length pre) (length pre + (5 + k)) a
    = Inr (make_success ''ParseDirectiveVar''
             (Node anon_variable_definition_assingment (Some (length pre, length pre + 4))
                [Node (of_tk tk_alnumus) (Some (length pre + 1, length pre + 2)) [],
                 Node (of_tk tk_simple_assignment) (Some (length pre + 2, length pre + 3))
                   [Node (of_tk (tk_kind c)) (Some (length pre + 3, length pre + 4)) [],
                    Node (of_tk tk_alnumus) (Some (length pre + 1, length pre + 2)) []]])
             (length pre + 5))"
  using assms
  apply (elim insertE emptyE)
  apply (simp_all add: functional_block_statement_def parse_statement_def statement_defs kinds_between_def
       take_5 take_4 ParseDirectiveVar_def ParseValueExpression_def tok_at_def nth_append push_back_def push_front_def
       make_success_def make_result_def
       build_defs contained_begin_def contained_end_def find_scope_def find_scope_of_def)
  done

lemma block_step:
  assumes "statement_form (map tk_kind s)"
  shows "\<exists>r t. s \<noteq> [] \<and> t = hd s \<and> tk_kind t \<noteq> tk_eof
           \<and> functional_block_statement (pre @ s @ rest) (length pre) (length pre + (length s + k)) t = Inr r
           \<and> res_it r = length pre + length s"
proof -
  from assms consider
      a b c d where "s = [a, b, c, d]" "tk_kind a = tk_alnumus" "tk_kind b = tk_simple_assignment"
        "tk_kind c = tk_number_literal" "tk_kind d = tk_eos"
    | a b d where "s = [a, b, d]" "tk_kind a = tk_return" "tk_kind b \<in> {tk_number_literal, tk_alnumus}"
        "tk_kind d = tk_eos"
    | a b d where "s = [a, b, d]" "tk_kind a = tk_var" "tk_kind b = tk_alnumus" "tk_kind d = tk_eos"
    | a b q c d where "s = [a, b, q, c, d]" "tk_kind a = tk_var" "tk_kind b = tk_alnumus"
        "tk_kind q = tk_simple_assignment" "tk_kind c \<in> {tk_number_literal, tk_alnumus}" "tk_kind d = tk_eos"
    unfolding statement_form_def by (elim disjE) (auto simp: map_eq_Cons_conv)
  then show ?thesis
  proof cases
    case 1
    from 1(1) have len: "length s = 4" and hd: "hd s = a" and ne: "s \<noteq> []"
      and app: "pre @ s @ rest = pre @ a # b # c # d # rest" by simp_all
    show ?thesis unfolding len hd app
      using step_identifier [OF 1(2-5), of pre rest k] ne 1(2)
      by (simp add: make_success_def make_result_def)
  next
    case 2
    from 2(1) have len: "length s = 3" and hd: "hd s = a" and ne: "s \<noteq> []"
      and app: "pre @ s @ rest = pre @ a # b # d # rest" by simp_all
    show ?thesis unfolding len hd app
      using step_return [OF 2(2-4), of pre rest k] ne 2(2)
      by (simp add: make_success_def make_result_def)
  next
    case 3
    from 3(1) have len: "length s = 3" and hd: "hd s = a" and ne: "s \<noteq> []"
      and app: "pre @ s @ rest = pre @ a # b # d # rest" by simp_all
    show ?thesis unfolding len hd app
      using step_var [OF 3(2-4), of pre rest k] ne 3(2)
      by (simp add: make_success_def make_result_def)
  next
    case 4
    from 4(1) have len: "length s = 5" and hd: "hd s = a" and ne: "s \<noteq> []"
      and app: "pre @ s @ rest = pre @ a # b # q # c # d # rest" by simp_all
    show ?thesis unfolding len hd app
      using step_var_assignment [OF 4(2-6), of pre rest k] ne 4(2)
      by (simp add: make_success_def make_result_def)
  qed
qed

lemma loop_accepts:
  assumes "list_all (\<lambda>s. statement_form (map tk_kind s)) ss"
  shows "\<exists>node'. functional_block_loop (pre @ concat ss @ post) (length pre + length (concat ss)) (length pre) node
             = Some (Inr (make_success ''ParseFunctionalBlock'' node' (length pre + length (concat ss))))
           \<and> kind node' = kind node
           \<and> length (children node') = length (children node) + length ss"
  using assms
proof (induction ss arbitrary: pre node)
  case Nil
  show ?case by (subst functional_block_loop.simps) (auto intro!: exI [of _ node])
next
  case (Cons s ss)
  from Cons.prems have sf: "statement_form (map tk_kind s)"
    and rest: "list_all (\<lambda>s. statement_form (map tk_kind s)) ss" by simp_all
  from block_step [OF sf, of pre "concat ss @ post" "length (concat ss)"]
  obtain r where ne: "s \<noteq> []" and neof: "tk_kind (hd s) \<noteq> tk_eof"
    and st: "functional_block_statement (pre @ s @ concat ss @ post) (length pre)
               (length pre + (length s + length (concat ss))) (hd s) = Inr r"
    and it: "res_it r = length pre + length s"
    by blast
  from ne have tok: "tok_at (pre @ s @ concat ss @ post) (length pre) = Some (hd s)"
    by (cases s) (simp_all add: tok_at_def nth_append)
  from ne have lt: "length pre < length pre + (length s + length (concat ss))" by simp
  from Cons.IH [OF rest, of "pre @ s" "push_back node (res_node r)"]
  obtain node' where
    ih: "functional_block_loop (pre @ s @ concat ss @ post) (length pre + length s + length (concat ss))
           (length pre + length s) (push_back node (res_node r))
         = Some (Inr (make_success ''ParseFunctionalBlock'' node' (length pre + length s + length (concat ss))))"
    and k: "kind node' = kind node"
    and n: "length (children node') = length (children node) + 1 + length ss"
    by (auto simp: push_back_def add.assoc)
  have "functional_block_loop (pre @ concat (s # ss) @ post) (length pre + length (concat (s # ss)))
          (length pre) node
        = functional_block_loop (pre @ s @ concat ss @ post) (length pre + length s + length (concat ss))
           (length pre + length s) (push_back node (res_node r))"
    using tok lt neof st it
    by (subst functional_block_loop.simps) (simp add: add.assoc)
  with ih k n show ?case by (auto simp: add.assoc intro!: exI [of _ node'])
qed

lemma functional_block_accepts:
  assumes "list_all (\<lambda>s. statement_form (map tk_kind s)) ss"
  shows "\<exists>r. ParseFunctionalBlock (concat ss @ post) 0 (length (concat ss)) = Some (Inr r)
           \<and> res_valid r \<and> res_it r = length (concat ss) \<and> kind (res_node r) = functional_block
           \<and> length (children (res_node r)) = length ss"
  using loop_accepts [OF assms, of "[]" post "Node functional_block (Some (0, length (concat ss))) []"]
  by (auto simp: ParseFunctionalBlock_def make_success_def make_result_def)

lemma functional_block_rejects:
  assumes "tok_at toks begin = Some t" and "begin < end"
    and "tk_kind t \<notin> {tk_alnumus, tk_return, tk_var, tk_eof}"
  shows "ParseFunctionalBlock toks begin end
           = Some (Inr (make_error ''ParseFunctionalBlock'' begin t ''ParsePragmaticBlock: Invalid statement.''))"
  using assms
  by (simp add: ParseFunctionalBlock_def functional_block_loop.simps functional_block_statement_def)

text \<open>
  C8, amended. At functional-block level the block parser accepts statements led by the
  keywords \<open>return\<close> and \<open>var\<close> and identifier-led statements: for every block whose statements
  are of the forms \<open>name = number;\<close>, \<open>return operand;\<close>, \<open>var name;\<close> and
  \<open>var name = operand;\<close>, \<open>ParseFunctionalBlock\<close> succeeds, with the cursor at the end of the
  block, and appends one child node per statement. For every block whose first token is of
  any other kind but \<open>eof\<close> (among them \<open>if\<close>, \<open>elif\<close>, \<open>else\<close>, \<open>while\<close>, \<open>for\<close>, \<open>on\<close>, \<open>break\<close>,
  \<open>continue\<close> and \<open>print\<close>) it returns the error result at that token. The witness is the
  block \<open>a = 1; #return a; #var b;\<close> and the block \<open>#break;\<close>.
\<close>

theorem functional_block_statements:
  "(list_all (\<lambda>s. statement_form (map tk_kind s)) ss \<longrightarrow>
      (\<exists>r. ParseFunctionalBlock (concat ss @ post) 0 (length (concat ss)) = Some (Inr r)
         \<and> res_valid r \<and> res_it r = length (concat ss) \<and> kind (res_node r) = functional_block
         \<and> length (children (res_node r)) = length ss))
   \<and> (tok_at toks begin = Some t \<and> begin < end
        \<and> tk_kind t \<notin> {tk_alnumus, tk_return, tk_var, tk_eof} \<longrightarrow>
      ParseFunctionalBlock toks begin end
        = Some (Inr (make_error ''ParseFunctionalBlock'' begin t ''ParsePragmaticBlock: Invalid statement.'')))"
  using functional_block_accepts [of ss post] functional_block_rejects [of toks "begin" t "end"] by blast

theorem functional_block_statements_witness:
  "(\<exists>r. ParseFunctionalBlock
           (concat [[tk tk_alnumus ''a'', tk tk_simple_assignment ''='', tk tk_number_literal ''1'', tk tk_eos '';''],
                    [tk tk_return ''#return'', tk tk_alnumus ''a'', tk tk_eos '';''],
                    [tk tk_var ''#var'', tk tk_alnumus ''b'', tk tk_eos '';'']] @ [tk tk_eof []])
           0 10 = Some (Inr r)
        \<and> res_valid r \<and> res_it r = 10 \<and> kind (res_node r) = functional_block
        \<and> length (children (res_node r)) = 3)
   \<and> ParseFunctionalBlock [tk tk_break ''#break'', tk tk_eos '';'', tk tk_eof []] 0 3
       = Some (Inr (make_error ''ParseFunctionalBlock'' 0 (tk tk_break ''#break'')
                      ''ParsePragmaticBlock: Invalid statement.''))"
proof -
  have forms: "list_all (\<lambda>s. statement_form (map tk_kind s))
          [[tk tk_alnumus ''a'', tk tk_simple_assignment ''='', tk tk_number_literal ''1'', tk tk_eos '';''],
           [tk tk_return ''#return'', tk tk_alnumus ''a'', tk tk_eos '';''],
           [tk tk_var ''#var'', tk tk_alnumus ''b'', tk tk_eos '';'']]"
    by (simp add: statement_form_def tk_def)
  have other: "tok_at [tk tk_break ''#break'', tk tk_eos '';'', tk tk_eof []] 0 = Some (tk tk_break ''#break'')
      \<and> (0::nat) < 3 \<and> tk_kind (tk tk_break ''#break'') \<notin> {tk_alnumus, tk_return, tk_var, tk_eof}"
    by (simp add: tok_at_def tk_def)
  from forms other
    functional_block_statements
      [of "[[tk tk_alnumus ''a'', tk tk_simple_assignment ''='', tk tk_number_literal ''1'', tk tk_eos '';''],
            [tk tk_return ''#return'', tk tk_alnumus ''a'', tk tk_eos '';''],
            [tk tk_var ''#var'', tk tk_alnumus ''b'', tk tk_eos '';'']]" "[tk tk_eof []]"
          "[tk tk_break ''#break'', tk tk_eos '';'', tk tk_eof []]" 0 "tk tk_break ''#break''" 3]
  show ?thesis by (simp add: eval_nat_numeral)
qed

text \<open>
  C6, as the claim states it, fails: \<open>ParseCsoPointer\<close> on a pointer sigil without a frame
  throws, and the exception leaves the routine.
\<close>

theorem cso_pointer_throws_counterexample:
  "ParseCsoPointer ParseCsoInt [tk tk_apointer ''&pointer'', tk tk_eos '';'', tk tk_eof []] 0 3
     = Inl (runtime_error ''ParseCsoPointer: Pointer must be contrained to a type.'')"
  by code_simp

lemma pve_catches:
  assumes "tok_at toks begin = Some first"
    and "build_statement toks begin (expression_end toks begin end) None = Inl (runtime_error what)"
  shows "rejected begin (ParseValueExpression toks begin end)"
  using assms by (simp add: ParseValueExpression_def expression_end_def rejected_def make_error_def)

lemma pve_never_throws:
  "ParseValueExpression toks begin end \<noteq> Inl (runtime_error what)"
  by (auto simp: ParseValueExpression_def Let_def split: option.splits sum.splits error.splits)

lemma cso_pointer_throws:
  assumes "tok_at toks begin = Some t" and "tk_kind t = tk_apointer"
    and "\<not> find_forward toks begin [tk_apointer, tk_open_frame]"
  shows "ParseCsoPointer cso toks begin end
           = Inl (runtime_error ''ParseCsoPointer: Pointer must be contrained to a type.'')"
  using assms
  by (auto simp: ParseCsoPointer_def find_forward_def kinds_between_def tok_at_def
        take_Suc_conv_app_nth  split: if_splits)

lemma parse_statement_throws:
  "\<not> valid (find_statement opn cls toks it end) \<Longrightarrow>
     parse_statement process opn cls toks it end
       = Inl (runtime_error ''ParsePragmaticBlock: Invalid statement scope.'')"
  by (simp add: parse_statement_def)

lemma return_lets_escape:
  "valid (find_statement tk_return tk_eos toks begin end) \<Longrightarrow>
   build_statement toks (contained_begin (find_statement tk_return tk_eos toks begin end))
      (contained_end (find_statement tk_return tk_eos toks begin end)) None = Inl e \<Longrightarrow>
   ParseDirectiveReturn toks begin end = Inl e"
  by (simp add: ParseDirectiveReturn_def)

lemma make_triples:
  "res_valid (make_pass name it) = False \<and> kind (res_node (make_pass name it)) = none
     \<and> res_it (make_pass name it) = it
   \<and> res_valid (make_error name cursor t msg) = False \<and> kind (res_node (make_error name cursor t msg)) = invalid
     \<and> res_it (make_error name cursor t msg) = cursor \<and> res_error_message (make_error name cursor t msg) \<noteq> []"
  by (simp add: result_defs)

text \<open>
  C6, amended. A pass is the returned triple not valid, node kind \<open>none\<close>, cursor as given,
  and an error is the returned triple not valid, node kind \<open>invalid\<close>, with a non-empty error
  text. \<open>ParseValueExpression\<close> reports every exception of \<open>build_statement\<close> by returning the
  error: no \<open>std::runtime_error\<close> leaves it. Other routines throw to their caller:
  \<open>ParseCsoPointer\<close> on a pointer sigil that no frame follows, the statement lambda of
  the block parsers on a statement without terminator, and \<open>ParseDirectiveReturn\<close> passes on
  whatever \<open>build_statement\<close> throws.
\<close>

theorem failure_reports:
  "res_valid (make_pass name it) = False \<and> kind (res_node (make_pass name it)) = none
     \<and> res_it (make_pass name it) = it
   \<and> res_valid (make_error name cursor t msg) = False \<and> kind (res_node (make_error name cursor t msg)) = invalid
     \<and> res_it (make_error name cursor t msg) = cursor \<and> res_error_message (make_error name cursor t msg) \<noteq> []
   \<and> ParseValueExpression toks begin end \<noteq> Inl (runtime_error what)
   \<and> (tok_at toks begin = Some first
        \<and> build_statement toks begin (expression_end toks begin end) None = Inl (runtime_error what) \<longrightarrow>
      rejected begin (ParseValueExpression toks begin end))
   \<and> (tok_at toks begin = Some first \<and> tk_kind first = tk_apointer
        \<and> \<not> find_forward toks begin [tk_apointer, tk_open_frame] \<longrightarrow>
      ParseCsoPointer cso toks begin end
        = Inl (runtime_error ''ParseCsoPointer: Pointer must be contrained to a type.''))
   \<and> (\<not> valid (find_statement opn cls toks begin end) \<longrightarrow>
      parse_statement process opn cls toks begin end
        = Inl (runtime_error ''ParsePragmaticBlock: Invalid statement scope.''))
   \<and> (valid (find_statement tk_return tk_eos toks begin end)
        \<and> build_statement toks (contained_begin (find_statement tk_return tk_eos toks begin end))
            (contained_end (find_statement tk_return tk_eos toks begin end)) None = Inl e \<longrightarrow>
      ParseDirectiveReturn toks begin end = Inl e)"
  using make_triples [of name it cursor t msg] pve_never_throws [of toks "begin" "end" what]
    pve_catches [of toks "begin" first "end" what] cso_pointer_throws [of toks "begin" first cso "end"]
    parse_statement_throws [of opn cls toks "begin" "end" process]
    return_lets_escape [of toks "begin" "end" e]
  by blast

theorem failure_reports_witness:
  "rejected 0 (ParseValueExpression
                 [tk tk_number_literal ''1'', tk tk_addition ''+'', tk tk_eos '';'', tk tk_eof []] 0 4)
   \<and> ParseCsoPointer ParseCsoInt [tk tk_apointer ''&pointer'', tk tk_eos '';'', tk tk_eof []] 0 3
       = Inl (runtime_error ''ParseCsoPointer: Pointer must be contrained to a type.'')
   \<and> parse_statement ParseDirectiveReturn tk_return tk_eos
        [tk tk_return ''#return'', tk tk_number_literal ''1'', tk tk_eof []] 0 3
       = Inl (runtime_error ''ParsePragmaticBlock: Invalid statement scope.'')
   \<and> ParseDirectiveReturn
        [tk tk_return ''#return'', tk tk_number_literal ''1'', tk tk_addition ''+'', tk tk_eos '';'',
         tk tk_eof []] 0 5
       = Inl (runtime_error
                ''End of expression after binary operator. Operator must be followed by operand.'')"
proof -
  let ?a = "[tk tk_number_literal ''1'', tk tk_addition ''+'', tk tk_eos '';'', tk tk_eof []]"
  let ?b = "[tk tk_apointer ''&pointer'', tk tk_eos '';'', tk tk_eof []]"
  let ?c = "[tk tk_return ''#return'', tk tk_number_literal ''1'', tk tk_eof []]"
  let ?d = "[tk tk_return ''#return'', tk tk_number_literal ''1'', tk tk_addition ''+'', tk tk_eos '';'',
             tk tk_eof []]"
  let ?what = "''End of expression after binary operator. Operator must be followed by operand.''"
  have a: "tok_at ?a 0 = Some (tk tk_number_literal ''1'')
        \<and> build_statement ?a 0 (expression_end ?a 0 4) None = Inl (runtime_error ?what)"
    by code_simp
  have b: "tok_at ?b 0 = Some (tk tk_apointer ''&pointer'') \<and> tk_kind (tk tk_apointer ''&pointer'') = tk_apointer
        \<and> \<not> find_forward ?b 0 [tk_apointer, tk_open_frame]"
    by code_simp
  have c: "\<not> valid (find_statement tk_return tk_eos ?c 0 3)"
    by code_simp
  have d: "valid (find_statement tk_return tk_eos ?d 0 5)
        \<and> build_statement ?d (contained_begin (find_statement tk_return tk_eos ?d 0 5))
            (contained_end (find_statement tk_return tk_eos ?d 0 5)) None = Inl (runtime_error ?what)"
    by code_simp
  from a failure_reports [of _ _ _ _ _ ?a 0 4 ?what "tk tk_number_literal ''1''"]
  have "rejected 0 (ParseValueExpression ?a 0 4)" by blast
  moreover from b failure_reports [of _ _ _ _ _ ?b 0 3 _ "tk tk_apointer ''&pointer''" ParseCsoInt]
  have "ParseCsoPointer ParseCsoInt ?b 0 3
          = Inl (runtime_error ''ParseCsoPointer: Pointer must be contrained to a type.'')" by blast
  moreover from c failure_reports [of _ _ _ _ _ ?c 0 3 _ _ _ tk_return tk_eos ParseDirectiveReturn]
  have "parse_statement ParseDirectiveReturn tk_return tk_eos ?c 0 3
          = Inl (runtime_error ''ParsePragmaticBlock: Invalid statement scope.'')" by blast
  moreover from d failure_reports [of _ _ _ _ _ ?d 0 5 _ _ _ _ _ _ "runtime_error ?what"]
  have "ParseDirectiveReturn ?d 0 5 = Inl (runtime_error ?what)" by blast
  ultimately show ?thesis by blast
qed



























section \<open>Properties of load_file_to_char8_vector\<close>

text \<open>
  C10. For every readable file the returned buffer follows the NUL convention: a non-empty
  file yields a non-empty vector whose last element is NUL, which is the file's bytes
  themselves when they already end in NUL and the bytes with one NUL appended otherwise;
  an empty file yields the empty vector, which holds no NUL at all.
\<close>

theorem load_file_nul_convention:
  assumes "fs name = opened bs True"
  shows "\<exists>r. load_file_to_char8_vector fs name = Inr r
           \<and> (bs \<noteq> [] \<longrightarrow> r \<noteq> [] \<and> last r = 0 \<and> r = (if last bs = 0 then bs else bs @ [0]))
           \<and> (bs = [] \<longrightarrow> r = [] \<and> 0 \<notin> set r)"
  using assms by (auto simp: load_file_to_char8_vector_def Let_def)

theorem load_file_nul_convention_witness:
  "load_file_to_char8_vector (\<lambda>n. if n = ''a.candi'' then opened [49, 59] True else opened [] True) ''a.candi''
       = Inr [49, 59, 0]
   \<and> load_file_to_char8_vector (\<lambda>n. if n = ''a.candi'' then opened [49, 59] True else opened [] True) ''b.candi''
       = Inr []"
  using load_file_nul_convention
          [of "\<lambda>n. if n = ''a.candi'' then opened [49, 59] True else opened [] True" "''a.candi''" "[49, 59]"]
        load_file_nul_convention
          [of "\<lambda>n. if n = ''a.candi'' then opened [49, 59] True else opened [] True" "''b.candi''" "[]"]
  by auto

end
